theory Spec2Isabelle
  imports Main
begin


section \<open>The collection command queue (lib/collection.js, lib/drivers/couchdb-cradle/collection.js)\<close>

text \<open>
  The driver methods of \<^verbatim>\<open>CradleCollection\<close> that go through the queue. Every one of
  them starts with \<^verbatim>\<open>if (this.maybeQueueCall(name, flag, arguments)) return;\<close> and
  then calls the store; \<open>waitsForIndexes\<close> is the flag each method passes.
\<close>

datatype driver_method =
  Insert | BulkInsert | Remove | BulkRemove | FindOneWithView | FindWithView
  | FindById | All | MapReduce

fun waitsForIndexes :: "driver_method \<Rightarrow> bool" where
  "waitsForIndexes FindOneWithView = True"
| "waitsForIndexes FindWithView = True"
| "waitsForIndexes MapReduce = True"
| "waitsForIndexes Insert = False"
| "waitsForIndexes BulkInsert = False"
| "waitsForIndexes Remove = False"
| "waitsForIndexes BulkRemove = False"
| "waitsForIndexes FindById = False"
| "waitsForIndexes All = False"

text \<open>
  A queued function is a driver method (queued under its name and resolved with
  \<^verbatim>\<open>this[fn]\<close>) or a function handed to \<^verbatim>\<open>callOrDeferUntilOpen\<close>. A queue entry is
  the array \<^verbatim>\<open>[fn, waitForIndexes, args]\<close>; \<open>None\<close> stands for \<^verbatim>\<open>undefined\<close> arguments.
\<close>

datatype 'f queued_fn = DriverMethod driver_method | Deferred 'f

type_synonym ('f, 'a) entry = "'f queued_fn \<times> bool \<times> 'a option"

text \<open>
  What leaves the collection: a call that reaches the store, a call of a deferred
  function (with its \<^verbatim>\<open>immediate\<close> argument), and the start of the
  \<^verbatim>\<open>ensureDb\<close> bootstrap.
\<close>

datatype ('f, 'a) effect = StoreCall driver_method "'a option" | FnCall 'f bool | EnsureDb

record ('f, 'a) collection =
  bufferCommands :: bool
  buffer :: bool
  ensuringDb :: bool
  ensuringIndexes :: int
  queue :: "('f, 'a) entry list"
  effects :: "('f, 'a) effect list"

definition Collection :: "bool \<Rightarrow> ('f, 'a) collection" where
  "Collection opts_bufferCommands =
     \<lparr> bufferCommands = opts_bufferCommands, buffer = opts_bufferCommands,
       ensuringDb = False, ensuringIndexes = 0, queue = [], effects = [] \<rparr>"

definition emit_effect :: "('f, 'a) effect \<Rightarrow> ('f, 'a) collection \<Rightarrow> ('f, 'a) collection" where
  "emit_effect x c = c\<lparr>effects := effects c @ [x]\<rparr>"

definition maybeQueueCall ::
  "'f queued_fn \<Rightarrow> bool \<Rightarrow> 'a option \<Rightarrow> ('f, 'a) collection \<Rightarrow> bool \<times> ('f, 'a) collection" where
  "maybeQueueCall fn waitForIndexes args c =
     (if buffer c \<or> (waitForIndexes \<and> ensuringIndexes c \<noteq> 0) then
        (let c1 = c\<lparr>queue := queue c @ [(fn, waitForIndexes, args)]\<rparr>;
             c2 = (if \<not> ensuringDb c1 then emit_effect EnsureDb (c1\<lparr>ensuringDb := True\<rparr>)
                   else c1)
         in (True, c2))
      else (False, c))"

definition callOrDeferUntilOpen ::
  "'f \<Rightarrow> bool \<Rightarrow> ('f, 'a) collection \<Rightarrow> ('f, 'a) collection" where
  "callOrDeferUntilOpen fn dontWaitForIndexes c =
     (case maybeQueueCall (Deferred fn) (\<not> dontWaitForIndexes) None c of
        (True, c') \<Rightarrow> c'
      | (False, c') \<Rightarrow> emit_effect (FnCall fn True) c')"

definition driver_call :: "driver_method \<Rightarrow> 'a option \<Rightarrow> ('f, 'a) collection \<Rightarrow> ('f, 'a) collection" where
  "driver_call m args c =
     (case maybeQueueCall (DriverMethod m) (waitsForIndexes m) args c of
        (True, c') \<Rightarrow> c'
      | (False, c') \<Rightarrow> emit_effect (StoreCall m args) c')"

text \<open>\<^verbatim>\<open>e[0].apply(this, e[2])\<close>: a driver method runs again from its queue check; a
  deferred function is called without arguments, so its \<^verbatim>\<open>immediate\<close> is not true.\<close>

fun apply_entry :: "('f, 'a) entry \<Rightarrow> ('f, 'a) collection \<Rightarrow> ('f, 'a) collection" where
  "apply_entry (DriverMethod m, w, args) c = driver_call m args c"
| "apply_entry (Deferred f, w, args) c = emit_effect (FnCall f False) c"

fun doQueue_loop ::
  "bool \<Rightarrow> ('f, 'a) entry list \<Rightarrow> ('f, 'a) collection \<Rightarrow> ('f, 'a) collection" where
  "doQueue_loop indexing [] c = c"
| "doQueue_loop indexing (e # es) c =
     doQueue_loop indexing es
       (if fst (snd e) \<and> indexing then c\<lparr>queue := queue c @ [e]\<rparr> else apply_entry e c)"

definition doQueue :: "('f, 'a) collection \<Rightarrow> ('f, 'a) collection" where
  "doQueue c = doQueue_loop (ensuringIndexes c \<noteq> 0) (queue c) (c\<lparr>queue := []\<rparr>)"

definition onOpen :: "('f, 'a) collection \<Rightarrow> ('f, 'a) collection" where
  "onOpen c = doQueue (c\<lparr>buffer := False, ensuringDb := False\<rparr>)"

definition onClose :: "('f, 'a) collection \<Rightarrow> ('f, 'a) collection" where
  "onClose c = (if bufferCommands c then c\<lparr>buffer := True, ensuringDb := False\<rparr> else c)"

text \<open>The entries \<^verbatim>\<open>maybeQueueCall\<close> builds for the driver's methods carry the method's
  own flag; \<open>held\<close> is the test \<^verbatim>\<open>e[1] && indexing\<close> of the flush.\<close>

fun entry_of_driver :: "('f, 'a) entry \<Rightarrow> bool" where
  "entry_of_driver (DriverMethod m, w, args) = (w = waitsForIndexes m)"
| "entry_of_driver (Deferred f, w, args) = True"

definition held :: "('f, 'a) collection \<Rightarrow> ('f, 'a) entry \<Rightarrow> bool" where
  "held c e = (fst (snd e) \<and> ensuringIndexes c \<noteq> 0)"

fun is_driver_method :: "('f, 'a) entry \<Rightarrow> bool" where
  "is_driver_method (DriverMethod m, w, args) = True"
| "is_driver_method (Deferred f, w, args) = False"

fun run_effect :: "('f, 'a) entry \<Rightarrow> ('f, 'a) effect" where
  "run_effect (DriverMethod m, w, args) = StoreCall m args"
| "run_effect (Deferred f, w, args) = FnCall f False"

fun is_call :: "('f, 'a) effect \<Rightarrow> bool" where
  "is_call EnsureDb = False"
| "is_call (StoreCall m args) = True"
| "is_call (FnCall f i) = True"

text \<open>Whether an entry is back in the queue after a flush: held by the flush itself, or
  run and queued again by its own driver method. \<open>buf\<close> is \<^verbatim>\<open>this.buffer\<close>, \<open>ix\<close> is
  \<^verbatim>\<open>!!this.ensuringIndexes\<close>.\<close>

fun stays :: "bool \<Rightarrow> bool \<Rightarrow> ('f, 'a) entry \<Rightarrow> bool" where
  "stays buf ix (DriverMethod m, w, args) = ((w \<and> ix) \<or> buf \<or> (waitsForIndexes m \<and> ix))"
| "stays buf ix (Deferred f, w, args) = (w \<and> ix)"

text \<open>An open collection with index synthesis in progress and four queued entries.\<close>

definition indexing_collection :: "(nat, nat) collection" where
  "indexing_collection =
     \<lparr> bufferCommands = True, buffer = False, ensuringDb = False, ensuringIndexes = 1,
       queue = [(DriverMethod Insert, False, Some 1), (DriverMethod FindWithView, True, Some 2),
                (Deferred 7, False, None), (DriverMethod Remove, False, Some 3)],
       effects = [] \<rparr>"


section \<open>The document lifecycle: save and remove (lib/model.js)\<close>

text \<open>
  Modelled from the spec: the Promise class (lib/promise.js is not among the sources).
  A promise holds the completions attached to it and, once it has resolved, its
  outcome; resolving it notifies all attached completions with that outcome, once. A
  completion attached after the promise has resolved is notified at once with the
  recorded outcome. Promises are objects shared between the instance and the store
  callback, so they live in a heap (a list, a reference being an index).
\<close>

datatype 'e outcome = Completed | Failed 'e

record ('cb, 'e) promise =
  listeners :: "'cb list"
  settled :: "'e outcome option"

datatype store_call = InsertDoc string "string option" | RemoveDoc string "string option"

text \<open>The callbacks handed to the store: \<^verbatim>\<open>handleSave(promise, self)\<close> and the callback of
  \<^verbatim>\<open>remove\<close>, each closing over one promise.\<close>

datatype continuation = HandleSave nat | RemoveDone nat

datatype doc_event = EvIsNew bool | EvSave | EvRemove

record document =
  doc_id :: string
  doc_rev :: "string option"
  isNew :: bool
  inserting :: bool
  removing :: "nat option"

record ('cb, 'e) doc_world =
  self :: document
  promises :: "('cb, 'e) promise list"
  store_calls :: "store_call list"
  in_flight :: "continuation list"
  notified :: "('cb \<times> 'e outcome) list"
  emitted :: "doc_event list"

definition callbacks_of :: "'cb option \<Rightarrow> 'cb list" where
  "callbacks_of fn = (case fn of None \<Rightarrow> [] | Some f \<Rightarrow> [f])"

definition new_Promise :: "'cb option \<Rightarrow> ('cb, 'e) doc_world \<Rightarrow> nat \<times> ('cb, 'e) doc_world" where
  "new_Promise fn w =
     (length (promises w),
      w\<lparr>promises := promises w @ [\<lparr>listeners = callbacks_of fn, settled = None\<rparr>]\<rparr>)"

definition resolve_promise :: "nat \<Rightarrow> 'e outcome \<Rightarrow> ('cb, 'e) doc_world \<Rightarrow> ('cb, 'e) doc_world" where
  "resolve_promise p out w =
     (if p < length (promises w) \<and> settled (promises w ! p) = None then
        w\<lparr>promises := (promises w)[p := (promises w ! p)\<lparr>settled := Some out\<rparr>],
          notified := notified w @ map (\<lambda>f. (f, out)) (listeners (promises w ! p))\<rparr>
      else w)"

definition addBack :: "'cb option \<Rightarrow> nat \<Rightarrow> ('cb, 'e) doc_world \<Rightarrow> ('cb, 'e) doc_world" where
  "addBack fn p w =
     (if p < length (promises w) then
        (case settled (promises w ! p) of
           None \<Rightarrow>
             w\<lparr>promises :=
                 (promises w)[p := (promises w ! p)\<lparr>listeners :=
                    listeners (promises w ! p) @ callbacks_of fn\<rparr>]\<rparr>
         | Some out \<Rightarrow> w\<lparr>notified := notified w @ map (\<lambda>f. (f, out)) (callbacks_of fn)\<rparr>)
      else w)"

definition emit_doc :: "doc_event \<Rightarrow> ('cb, 'e) doc_world \<Rightarrow> ('cb, 'e) doc_world" where
  "emit_doc ev w = w\<lparr>emitted := emitted w @ [ev]\<rparr>"

definition collection_insert :: "continuation \<Rightarrow> ('cb, 'e) doc_world \<Rightarrow> ('cb, 'e) doc_world" where
  "collection_insert k w =
     w\<lparr>store_calls := store_calls w @ [InsertDoc (doc_id (self w)) (doc_rev (self w))],
       in_flight := in_flight w @ [k]\<rparr>"

definition collection_remove :: "continuation \<Rightarrow> ('cb, 'e) doc_world \<Rightarrow> ('cb, 'e) doc_world" where
  "collection_remove k w =
     w\<lparr>store_calls := store_calls w @ [RemoveDoc (doc_id (self w)) (doc_rev (self w))],
       in_flight := in_flight w @ [k]\<rparr>"

text \<open>\<^verbatim>\<open>Model.prototype.save\<close>. The write is handed to the store first; the store calls
  back later (both drivers answer asynchronously), so the flags below are set before
  \<open>handleSave\<close> runs.\<close>

definition save :: "'cb option \<Rightarrow> ('cb, 'e) doc_world \<Rightarrow> ('cb, 'e) doc_world" where
  "save fn w0 =
     (let (promise, w) = new_Promise fn w0 in
      if isNew (self w) then
        (let w1 = collection_insert (HandleSave promise) w;
             w2 = w1\<lparr>self := (self w1)\<lparr>isNew := False\<rparr>\<rparr>;
             w3 = emit_doc (EvIsNew False) w2
         in w3\<lparr>self := (self w3)\<lparr>inserting := True\<rparr>\<rparr>)
      else
        (let w1 = w\<lparr>self := (self w)\<lparr>inserting := False\<rparr>\<rparr>;
             w2 = collection_insert (HandleSave promise) w1
         in emit_doc (EvIsNew False) w2))"

text \<open>The function \<^verbatim>\<open>handleSave\<close> returns, applied to the store's answer: an error, or
  the confirmed id and revision (the \<^verbatim>\<open>result{id, rev}\<close> of the driver contract).
  \<^verbatim>\<open>utils.tick\<close>, which wraps the callback, is not among the sources; the wrapped
  callback is taken to run as the callback does.\<close>

definition handleSave ::
  "nat \<Rightarrow> 'e + string \<times> string \<Rightarrow> ('cb, 'e) doc_world \<Rightarrow> ('cb, 'e) doc_world" where
  "handleSave promise reply w =
     (case reply of
        Inl err \<Rightarrow>
          (let w1 = (if inserting (self w)
                     then emit_doc (EvIsNew True) (w\<lparr>self := (self w)\<lparr>isNew := True\<rparr>\<rparr>)
                     else w)
           in resolve_promise promise (Failed err) w1)
      | Inr (rid, rrev) \<Rightarrow>
          (let w1 = w\<lparr>self := (self w)\<lparr>doc_id := rid, doc_rev := Some rrev\<rparr>\<rparr>;
               w2 = emit_doc EvSave w1
           in resolve_promise promise Completed w2))"

text \<open>\<^verbatim>\<open>Model.prototype.remove\<close> and the callback it hands to the store.\<close>

definition remove :: "'cb option \<Rightarrow> ('cb, 'e) doc_world \<Rightarrow> ('cb, 'e) doc_world" where
  "remove fn w0 =
     (case removing (self w0) of
        Some p \<Rightarrow> addBack fn p w0
      | None \<Rightarrow>
          (let (promise, w) = new_Promise fn w0;
               w1 = w\<lparr>self := (self w)\<lparr>removing := Some promise\<rparr>\<rparr>
           in collection_remove (RemoveDone promise) w1))"

definition remove_callback ::
  "nat \<Rightarrow> 'e option \<Rightarrow> ('cb, 'e) doc_world \<Rightarrow> ('cb, 'e) doc_world" where
  "remove_callback promise err w =
     (case err of
        Some e \<Rightarrow>
          (let w1 = resolve_promise promise (Failed e) w
           in w1\<lparr>self := (self w1)\<lparr>removing := None\<rparr>\<rparr>)
      | None \<Rightarrow> resolve_promise promise Completed (emit_doc EvRemove w))"

text \<open>The store answers a pending call: the continuation leaves the in-flight list and
  runs on the answer. For a removal only the error of the answer is read.\<close>

fun run_continuation ::
  "continuation \<Rightarrow> 'e + string \<times> string \<Rightarrow> ('cb, 'e) doc_world \<Rightarrow> ('cb, 'e) doc_world" where
  "run_continuation (HandleSave p) reply w = handleSave p reply w"
| "run_continuation (RemoveDone p) reply w =
     remove_callback p (case reply of Inl e \<Rightarrow> Some e | Inr r \<Rightarrow> None) w"

definition store_answers ::
  "continuation \<Rightarrow> 'e + string \<times> string \<Rightarrow> ('cb, 'e) doc_world \<Rightarrow> ('cb, 'e) doc_world" where
  "store_answers k reply w = run_continuation k reply (w\<lparr>in_flight := remove1 k (in_flight w)\<rparr>)"

definition outcome_of :: "'e + string \<times> string \<Rightarrow> 'e outcome" where
  "outcome_of reply = (case reply of Inl e \<Rightarrow> Failed e | Inr r \<Rightarrow> Completed)"

definition new_document :: "string \<Rightarrow> ('cb, 'e) doc_world" where
  "new_document ident =
     \<lparr> self = \<lparr> doc_id = ident, doc_rev = None, isNew = True, inserting = False,
                removing = None \<rparr>,
       promises = [], store_calls = [], in_flight = [], notified = [], emitted = [] \<rparr>"

text \<open>A removal is in flight: the instance's marker names a promise that has not
  resolved. A removal has settled: the marker still names the promise, which has resolved.\<close>

definition removal_in_flight :: "nat \<Rightarrow> ('cb, 'e) doc_world \<Rightarrow> bool" where
  "removal_in_flight p w \<longleftrightarrow>
     removing (self w) = Some p \<and> p < length (promises w) \<and> settled (promises w ! p) = None"



text \<open>
  What can happen to an instance between a save and the store's answer to it: further
  calls of \<^verbatim>\<open>save\<close> and \<^verbatim>\<open>remove\<close>, and answers of the store to calls that are
  pending. \<open>is_removal\<close> holds of a \<^verbatim>\<open>remove\<close> call and of an answer to a removal;
  \<open>answers_write p\<close> holds of the answer to the write whose callback closes over
  promise \<open>p\<close>.
\<close>

fun promise_of :: "continuation \<Rightarrow> nat" where
  "promise_of (HandleSave p) = p"
| "promise_of (RemoveDone p) = p"

datatype ('cb, 'e) activity =
  CallSave "'cb option" | CallRemove "'cb option"
  | StoreAnswers continuation "'e + string \<times> string"

fun occurs :: "('cb, 'e) activity \<Rightarrow> ('cb, 'e) doc_world \<Rightarrow> ('cb, 'e) doc_world" where
  "occurs (CallSave fn) w = save fn w"
| "occurs (CallRemove fn) w = remove fn w"
| "occurs (StoreAnswers k reply) w = (if k \<in> set (in_flight w) then store_answers k reply w else w)"

fun is_removal :: "('cb, 'e) activity \<Rightarrow> bool" where
  "is_removal (CallRemove fn) = True"
| "is_removal (StoreAnswers (RemoveDone q) reply) = True"
| "is_removal (StoreAnswers (HandleSave q) reply) = False"
| "is_removal (CallSave fn) = False"

fun answers_write :: "nat \<Rightarrow> ('cb, 'e) activity \<Rightarrow> bool" where
  "answers_write p (StoreAnswers k reply) = (k = HandleSave p)"
| "answers_write p (CallSave fn) = False"
| "answers_write p (CallRemove fn) = False"

text \<open>References are well formed when every pending callback and the removal marker
  name a promise of the heap. A write is pending when its promise is unresolved with
  the caller's completion attached, and no other pending callback or the removal marker
  names that promise.\<close>

definition well_formed :: "('cb, 'e) doc_world \<Rightarrow> bool" where
  "well_formed w \<longleftrightarrow>
     list_all (\<lambda>k. promise_of k < length (promises w)) (in_flight w)
     \<and> (case removing (self w) of None \<Rightarrow> True | Some q \<Rightarrow> q < length (promises w))"

definition write_pending :: "nat \<Rightarrow> 'cb option \<Rightarrow> ('cb, 'e) doc_world \<Rightarrow> bool" where
  "write_pending p fn w \<longleftrightarrow>
     p < length (promises w)
     \<and> promises w ! p = \<lparr>listeners = callbacks_of fn, settled = None\<rparr>
     \<and> list_all (\<lambda>k. promise_of k < length (promises w) \<and> (promise_of k = p \<longrightarrow> k = HandleSave p))
          (in_flight w)
     \<and> (case removing (self w) of None \<Rightarrow> True | Some q \<Rightarrow> q < length (promises w) \<and> q \<noteq> p)"

text \<open>Two instances for the examples: a new document, and the same document after its
  first save has been confirmed by the store.\<close>

definition fresh_doc :: "(nat, string) doc_world" where
  "fresh_doc = new_document ''d1''"

definition saved_once :: "(nat, string) doc_world" where
  "saved_once = store_answers (HandleSave 0) (Inr (''d1'', ''1-a'')) (save None fresh_doc)"

section \<open>Strings as JavaScript has them\<close>

text \<open>
  \<^verbatim>\<open>String.prototype.replace(pattern, replacement)\<close> with a string pattern: the first
  occurrence of the pattern is replaced, and in the replacement \<^verbatim>\<open>$$\<close> stands for a
  dollar sign, \<^verbatim>\<open>$&\<close> for the match, \<^verbatim>\<open>$`\<close> for the text before the match and
  \<^verbatim>\<open>$'\<close> for the text after it (there are no groups, so every other \<^verbatim>\<open>$\<close> is
  literal). A string without the pattern is returned unchanged.
\<close>

fun starts_with :: "string \<Rightarrow> string \<Rightarrow> bool" where
  "starts_with [] s = True"
| "starts_with (p # ps) [] = False"
| "starts_with (p # ps) (c # cs) = (p = c \<and> starts_with ps cs)"

fun find_first :: "string \<Rightarrow> string \<Rightarrow> string \<Rightarrow> (string \<times> string) option" where
  "find_first pat pre [] = (if pat = [] then Some (rev pre, []) else None)"
| "find_first pat pre (c # cs) =
     (if starts_with pat (c # cs) then Some (rev pre, drop (length pat) (c # cs))
      else find_first pat (c # pre) cs)"

fun expand_replacement :: "string \<Rightarrow> string \<Rightarrow> string \<Rightarrow> string \<Rightarrow> string" where
  "expand_replacement m b a [] = []"
| "expand_replacement m b a [c] = [c]"
| "expand_replacement m b a (c # d # r) =
     (if c = CHR ''$'' \<and> d = CHR ''$'' then CHR ''$'' # expand_replacement m b a r
      else if c = CHR ''$'' \<and> d = CHR ''&'' then m @ expand_replacement m b a r
      else if c = CHR ''$'' \<and> d = CHR 0x60 then b @ expand_replacement m b a r
      else if c = CHR ''$'' \<and> d = CHR 0x27 then a @ expand_replacement m b a r
      else c # expand_replacement m b a (d # r))"

definition js_replace :: "string \<Rightarrow> string \<Rightarrow> string \<Rightarrow> string" where
  "js_replace s pat repl =
     (case find_first pat [] s of
        None \<Rightarrow> s
      | Some (b, a) \<Rightarrow> b @ expand_replacement pat b a repl @ a)"

text \<open>\<^verbatim>\<open>name.charAt(0).toUpperCase() + name.slice(1)\<close>, on ASCII letters.\<close>

definition toUpperCase :: "char \<Rightarrow> char" where
  "toUpperCase c =
     (case map_of (zip ''abcdefghijklmnopqrstuvwxyz'' ''ABCDEFGHIJKLMNOPQRSTUVWXYZ'') c of
        None \<Rightarrow> c | Some u \<Rightarrow> u)"

fun capitalize :: "string \<Rightarrow> string" where
  "capitalize [] = []"
| "capitalize (c # cs) = toUpperCase c # cs"

text \<open>The white space \<^verbatim>\<open>\s\<close> matches, within ASCII; the single quote; string
  conversion of a value that may be \<^verbatim>\<open>null\<close>.\<close>

definition is_space :: "char \<Rightarrow> bool" where
  "is_space c \<longleftrightarrow> c \<in> set [CHR '' '', CHR 0x09, CHR 0x0A, CHR 0x0B, CHR 0x0C, CHR 0x0D]"

definition sq :: string where
  "sq = [CHR 0x27]"

definition nl :: string where
  "nl = [CHR 0x0A]"

definition js_string :: "string option \<Rightarrow> string" where
  "js_string v = (case v of None \<Rightarrow> ''null'' | Some s \<Rightarrow> s)"

definition truthy_string :: "string option \<Rightarrow> bool" where
  "truthy_string v = (case v of None \<Rightarrow> False | Some s \<Rightarrow> s \<noteq> [])"

definition truthy_bool :: "bool option \<Rightarrow> bool" where
  "truthy_bool v = (case v of None \<Rightarrow> False | Some b \<Rightarrow> b)"

text \<open>A JavaScript object as the list of its own properties in enumeration order:
  assignment to a property keeps its place or appends it.\<close>

fun obj_set :: "string \<Rightarrow> 'v \<Rightarrow> (string \<times> 'v) list \<Rightarrow> (string \<times> 'v) list" where
  "obj_set k v [] = [(k, v)]"
| "obj_set k v ((k', v') # rest) = (if k' = k then (k, v) # rest else (k', v') # obj_set k v rest)"


section \<open>Schemas, models and design documents (lib/model.js)\<close>

text \<open>
  A custom view of \<^verbatim>\<open>schema.options.views\<close>: the source text of its map and reduce
  functions and the \<^verbatim>\<open>asDefaultIndex\<close> flag. An object of functions (\<^verbatim>\<open>updates\<close>,
  \<^verbatim>\<open>lists\<close>, one view definition) maps names to source texts; the code compares
  functions by \<^verbatim>\<open>toString()\<close>, and the store keeps them as text.
\<close>

record view_spec =
  spec_map :: "string option"
  spec_reduce :: "string option"
  asDefaultIndex :: bool

type_synonym fn_obj = "(string \<times> string) list"

record discriminator_mapping =
  dm_key :: string
  dm_value :: "string option"
  isRoot :: bool

text \<open>The \<^verbatim>\<open>index\<close> option of a declared path: \<^verbatim>\<open>true\<close>, or a key-modifier string.\<close>

datatype index_option = IndexOn | KeyModifier string

datatype optval = OBool bool | ONum int | OStr string

text \<open>
  \<^verbatim>\<open>schema.options\<close>. The options the code reads by name are fields (\<open>None\<close>: the option
  is not set); \<open>other_options\<close> holds every other option, by name. \<^verbatim>\<open>toJSON\<close> and
  \<^verbatim>\<open>toObject\<close> are option objects, kept opaque.
\<close>

record schema_options =
  discriminatorKey :: string
  collection_name :: "string option"
  autoIndex :: "bool option"
  disableCache :: "bool option"
  toJSON :: "string option"
  toObject :: "string option"
  opt_views :: "(string \<times> view_spec) list option"
  opt_updates :: "fn_obj option"
  opt_lists :: "fn_obj option"
  forcePlainDiscriminatorIndex :: "bool option"
  other_options :: "(string \<times> optval) list"

text \<open>A schema: the declared paths in order, each with its \<^verbatim>\<open>index\<close> option
  (\<^verbatim>\<open>schema.tree[name].index\<close>), the options, the discriminator mapping and the
  queue of lifecycle hooks.\<close>

record schema =
  tree :: "(string \<times> index_option option) list"
  options :: schema_options
  discriminatorMapping :: "discriminator_mapping option"
  callQueue :: "string list"

text \<open>
  Modelled from the spec: \<^verbatim>\<open>Schema.prototype.indexes\<close> (lib/schema.js is not among the
  sources). It returns one single-field entry for each implicitly indexed field, that
  is each declared path whose index option is set, in declaration order.
\<close>

definition indexes :: "schema \<Rightarrow> string list list" where
  "indexes s = map (\<lambda>(name, ix). [name]) (filter (\<lambda>(name, ix). ix \<noteq> None) (tree s))"

datatype error =
  MoreThanOneDefault string
  | TypeError
  | NotASchema
  | NotRootModel string
  | FieldNameClash string string
  | NotCustomizable
  | AlreadyExists string

text \<open>A compiled model: its name, schema, default view, collection, the registered
  discriminators (each derived model by its schema) and the \<^verbatim>\<open>index\<close> events emitted.\<close>

record ('f, 'a) model =
  modelName :: string
  schema :: schema
  defaultView :: "string option"
  collection :: "('f, 'a) collection"
  discriminators :: "(string \<times> schema) list option"
  index_events :: "string option list"

record design =
  design_id :: "string option"
  design_views :: "(string \<times> fn_obj) list option"
  design_updates :: "fn_obj option"
  design_lists :: "fn_obj option"

definition empty_design :: design where
  "empty_design =
     \<lparr> design_id = None, design_views = None, design_updates = None, design_lists = None \<rparr>"


section \<open>Index synthesis: Model.ensureIndexes\<close>

text \<open>
  \<^verbatim>\<open>utils.toCollectionName\<close> is not among the sources; it is the parameter
  \<open>toCollectionName\<close> of the functions below, applied to the variant value of the
  schema's discriminator mapping.

  The first loop: the explicit default view. \<open>ref\<close> builds the view reference of a
  view name; the loop throws at the second view flagged \<^verbatim>\<open>asDefaultIndex\<close>.
\<close>

definition explicit_view_ref :: "(string option \<Rightarrow> string) \<Rightarrow> schema \<Rightarrow> string \<Rightarrow> string" where
  "explicit_view_ref toCollectionName s k =
     (case discriminatorMapping s of
        Some dm \<Rightarrow> toCollectionName (dm_value dm) @ ''/'' @ k
      | None \<Rightarrow> ''$root/'' @ k)"

fun default_from_views ::
  "(string \<Rightarrow> string) \<Rightarrow> string \<Rightarrow> (string \<times> view_spec) list \<Rightarrow> string option
   \<Rightarrow> error + string option" where
  "default_from_views ref mname [] dv = Inr dv"
| "default_from_views ref mname ((k, spec) # rest) dv =
     (if asDefaultIndex spec then
        (if truthy_string dv then Inl (MoreThanOneDefault mname)
         else default_from_views ref mname rest (Some (ref k)))
      else default_from_views ref mname rest dv)"

text \<open>The implied indexes: design document id, guard text, indexes and default view.
  Reading \<^verbatim>\<open>indexes[0][0]\<close> of an empty list is a TypeError.\<close>

definition early_out :: "discriminator_mapping \<Rightarrow> string" where
  "early_out dm =
     ''if (doc['' @ sq @ dm_key dm @ sq @ ''] !== '' @ sq @ js_string (dm_value dm) @ sq
       @ '') return;''"

definition implied_indexes ::
  "(string option \<Rightarrow> string) \<Rightarrow> schema \<Rightarrow> string list list \<Rightarrow> string option
   \<Rightarrow> error + string \<times> string \<times> string list list \<times> string option" where
  "implied_indexes toCollectionName s ixs dv =
     (case discriminatorMapping s of
        None \<Rightarrow> Inr (''$root'', [], ixs, dv)
      | Some dm \<Rightarrow>
          if isRoot dm then Inr (''$root'', [], ixs, dv)
          else
            (let dd = toCollectionName (dm_value dm) in
             if (ixs = [] \<and> \<not> truthy_string dv)
                \<or> truthy_bool (forcePlainDiscriminatorIndex (options s))
             then Inr (dd, early_out dm, ixs @ [[''_id'']], Some (dd @ ''/by_id''))
             else
               (case ixs of
                  [] \<Rightarrow> Inl TypeError
                | fieldSpec # rest \<Rightarrow>
                    Inr (dd, early_out dm, ixs,
                         foldl (\<lambda>acc fieldName. Some (dd @ ''/by'' @ capitalize fieldName))
                           dv fieldSpec))))"

text \<open>What the callback of \<^verbatim>\<open>findById\<close> closes over.\<close>

record ensure_closure =
  designDoc :: string
  discriminatorEarlyOut :: string
  closure_indexes :: "string list list"

text \<open>
  The synchronous part of \<^verbatim>\<open>Model.ensureIndexes\<close>, up to the call of
  \<^verbatim>\<open>findById\<close>. The result is the error thrown, or \<open>None\<close> when there is nothing
  to ensure, or the closure of the pending read; the model is returned as the code
  leaves it.
\<close>

definition ensureIndexes ::
  "(string option \<Rightarrow> string) \<Rightarrow> ('f, 'a) model
   \<Rightarrow> (error + ensure_closure option) \<times> ('f, 'a) model" where
  "ensureIndexes toCollectionName m =
     (let s = schema m; customViews = opt_views (options s) in
      case (case customViews of
              None \<Rightarrow> Inr None
            | Some vs \<Rightarrow>
                default_from_views (explicit_view_ref toCollectionName s) (modelName m) vs None) of
        Inl e \<Rightarrow> (Inl e, m)
      | Inr dv \<Rightarrow>
          (case implied_indexes toCollectionName s (indexes s) dv of
             Inl e \<Rightarrow> (Inl e, m)
           | Inr (dd, guard, ixs, defaultView') \<Rightarrow>
               if ixs = [] \<and> customViews = None \<and> opt_updates (options s) = None
                  \<and> opt_lists (options s) = None
               then (Inr None, m)
               else
                 (Inr (Some \<lparr> designDoc = dd, discriminatorEarlyOut = guard,
                              closure_indexes = ixs \<rparr>),
                  m\<lparr>collection :=
                      (collection m)\<lparr>ensuringIndexes := ensuringIndexes (collection m) + 1\<rparr>,
                    defaultView := defaultView'\<rparr>)))"

text \<open>The function \<^verbatim>\<open>done\<close> of \<^verbatim>\<open>ensureIndexes\<close>: the \<^verbatim>\<open>index\<close> event, the counter, and
  the queue flush when the counter reaches zero.\<close>

definition ensure_done :: "string option \<Rightarrow> ('f, 'a) model \<Rightarrow> ('f, 'a) model" where
  "ensure_done err m =
     (let c = (collection m)\<lparr>ensuringIndexes := ensuringIndexes (collection m) - 1\<rparr>
      in m\<lparr>index_events := index_events m @ [err],
           collection := (if ensuringIndexes c = 0 then doQueue c else c)\<rparr>)"

fun hasEquivalentFunctions :: "fn_obj option \<Rightarrow> fn_obj option \<Rightarrow> bool" where
  "hasEquivalentFunctions None None = True"
| "hasEquivalentFunctions None (Some b) = False"
| "hasEquivalentFunctions (Some a) None = False"
| "hasEquivalentFunctions (Some a) (Some b) =
     list_all (\<lambda>(e, f). case map_of b e of None \<Rightarrow> False | Some g \<Rightarrow> f = g) a"

text \<open>The rewrite of a custom list function of a discriminated schema.\<close>

definition listDiscriminatorHandler :: "discriminator_mapping \<Rightarrow> string" where
  "listDiscriminatorHandler dm =
     js_replace
       (dropWhile is_space
          (nl @ ''          var getDiscriminatedRow = function() {''
           @ nl @ ''            var row; while ((row = getRow())) {''
           @ nl @ ''              if (row.value.'' @ dm_key dm @ '' === '' @ sq
                @ js_string (dm_value dm) @ sq @ '')''
           @ nl @ ''                break;''
           @ nl @ ''            }''
           @ nl @ ''            return row;''
           @ nl @ ''          };''))
       nl '' ''"

definition rewrite_list :: "string \<Rightarrow> string \<Rightarrow> string" where
  "rewrite_list handler src =
     js_replace (js_replace src ''getRow'' ''getDiscriminatedRow'') ''{'' (''{'' @ handler)"

text \<open>The local variables of the callback that \<open>maybeUpdateIndex\<close> changes.\<close>

record sync =
  the_design :: design
  modified :: bool
  customViewNames :: "string list"
  indexViewNames :: "string list"

definition set_view :: "string \<Rightarrow> fn_obj \<Rightarrow> sync \<Rightarrow> sync" where
  "set_view viewName def st =
     (let stored = (case design_views (the_design st) of
                      None \<Rightarrow> None | Some vs \<Rightarrow> map_of vs viewName) in
      if \<not> hasEquivalentFunctions stored (Some def) then
        st\<lparr>the_design := (the_design st)\<lparr>design_views :=
              Some (obj_set viewName def
                      (case design_views (the_design st) of None \<Rightarrow> [] | Some vs \<Rightarrow> vs))\<rparr>,
           modified := True\<rparr>
      else st)"

definition maybeUpdateIndex ::
  "schema \<Rightarrow> string \<Rightarrow> string \<Rightarrow> view_spec option \<Rightarrow> sync \<Rightarrow> error + sync" where
  "maybeUpdateIndex s guard name spec st =
     (case spec of
        Some sp \<Rightarrow>
          (let def =
                 (case spec_map sp of
                    None \<Rightarrow> []
                  | Some src \<Rightarrow>
                      if src = [] then []
                      else [(''map'', if guard \<noteq> [] then js_replace src ''{'' (''{'' @ guard)
                                     else src)])
                 @ (case spec_reduce sp of
                      None \<Rightarrow> []
                    | Some r \<Rightarrow> if r = [] then [] else [(''reduce'', r)])
           in Inr (set_view name def (st\<lparr>customViewNames := customViewNames st @ [name]\<rparr>)))
      | None \<Rightarrow>
          (let viewName = ''by'' @ capitalize name in
           case map_of (tree s) name of
             None \<Rightarrow> Inl TypeError
           | Some ix \<Rightarrow>
               (let keyModifier = (case ix of Some (KeyModifier k) \<Rightarrow> k | _ \<Rightarrow> []);
                    def = [(''map'', ''function(doc){'' @ guard @ ''emit(doc.'' @ name
                                     @ keyModifier @ '',doc);}'')]
                in Inr (set_view viewName def
                          (st\<lparr>indexViewNames := indexViewNames st @ [viewName]\<rparr>)))))"

fun update_indexes :: "schema \<Rightarrow> string \<Rightarrow> string list \<Rightarrow> sync \<Rightarrow> error + sync" where
  "update_indexes s guard [] st = Inr st"
| "update_indexes s guard (fieldName # rest) st =
     (case maybeUpdateIndex s guard fieldName None st of
        Inl e \<Rightarrow> Inl e
      | Inr st' \<Rightarrow> update_indexes s guard rest st')"

fun update_views :: "schema \<Rightarrow> string \<Rightarrow> (string \<times> view_spec) list \<Rightarrow> sync \<Rightarrow> error + sync" where
  "update_views s guard [] st = Inr st"
| "update_views s guard ((viewName, spec) # rest) st =
     (case maybeUpdateIndex s guard viewName (Some spec) st of
        Inl e \<Rightarrow> Inl e
      | Inr st' \<Rightarrow> update_views s guard rest st')"

text \<open>The end of the callback: views no longer required are deleted; with no required
  view at all the whole \<^verbatim>\<open>views\<close> property is deleted.\<close>

definition prune_views :: "sync \<Rightarrow> sync" where
  "prune_views st =
     (case design_views (the_design st) of
        None \<Rightarrow> st
      | Some vs \<Rightarrow>
          if customViewNames st = [] \<and> indexViewNames st = [] then
            st\<lparr>the_design := (the_design st)\<lparr>design_views := None\<rparr>, modified := True\<rparr>
          else
            (let required = (\<lambda>(viewName, def). viewName \<in> set (customViewNames st)
                                \<or> viewName \<in> set (indexViewNames st)) in
             st\<lparr>the_design := (the_design st)\<lparr>design_views := Some (filter required vs)\<rparr>,
                modified := (modified st \<or> \<not> list_all required vs)\<rparr>))"

text \<open>
  The callback of \<^verbatim>\<open>findById\<close>, given the design document found (\<open>None\<close>: not
  found). The result is the error thrown, or the document handed to
  \<^verbatim>\<open>collection.insert\<close> (\<open>None\<close> when nothing was modified and \<^verbatim>\<open>done\<close> is scheduled
  directly), with the model: the rewritten list functions are stored back into
  \<^verbatim>\<open>schema.options.lists\<close>, the object the code rewrites in place.
\<close>

definition findById_callback ::
  "ensure_closure \<Rightarrow> design option \<Rightarrow> ('f, 'a) model \<Rightarrow> error + design option \<times> ('f, 'a) model" where
  "findById_callback cl found m =
     (let s = schema m;
          guard = discriminatorEarlyOut cl;
          customUpdates = opt_updates (options s);
          d0 = (case found of None \<Rightarrow> empty_design | Some d \<Rightarrow> d);
          d1 = (if design_views d0 = None then d0\<lparr>design_views := Some []\<rparr> else d0);
          st1 = (if \<not> hasEquivalentFunctions (design_updates d1) customUpdates
                 then \<lparr> the_design = d1\<lparr>design_updates := customUpdates\<rparr>, modified = True,
                        customViewNames = [], indexViewNames = [] \<rparr>
                 else \<lparr> the_design = d1, modified = False,
                        customViewNames = [], indexViewNames = [] \<rparr>)
      in case (case opt_lists (options s) of
                 None \<Rightarrow> Inr None
               | Some ls \<Rightarrow>
                   if guard \<noteq> [] then
                     (case discriminatorMapping s of
                        None \<Rightarrow> Inl TypeError
                      | Some dm \<Rightarrow>
                          Inr (Some (map (\<lambda>(l, src). (l, rewrite_list (listDiscriminatorHandler dm) src))
                                       ls)))
                   else Inr (Some ls)) of
           Inl e \<Rightarrow> Inl e
         | Inr customLists \<Rightarrow>
             (let m' = m\<lparr>schema := s\<lparr>options := (options s)\<lparr>opt_lists := customLists\<rparr>\<rparr>\<rparr>;
                  st2 = (if \<not> hasEquivalentFunctions (design_lists (the_design st1)) customLists
                         then st1\<lparr>the_design := (the_design st1)\<lparr>design_lists := customLists\<rparr>,
                                 modified := True\<rparr>
                         else st1)
              in case update_indexes s guard (concat (closure_indexes cl)) st2 of
                   Inl e \<Rightarrow> Inl e
                 | Inr st3 \<Rightarrow>
                     (case update_views s guard
                             (case opt_views (options s) of None \<Rightarrow> [] | Some vs \<Rightarrow> vs) st3 of
                        Inl e \<Rightarrow> Inl e
                      | Inr st4 \<Rightarrow>
                          (let st5 = prune_views st4 in
                           if modified st5 then
                             Inr (Some ((the_design st5)\<lparr>design_id :=
                                          Some (''_design/'' @ designDoc cl)\<rparr>), m')
                           else Inr (None, m')))))"

text \<open>
  One complete run of index synthesis against an open collection whose store answers
  at once: the read returns the stored design document, a write succeeds and replaces
  it. The world keeps the model, the stored design documents, and the reads and writes
  of design documents in order.
\<close>

record ('f, 'a) index_world =
  the_model :: "('f, 'a) model"
  design_store :: "(string \<times> design) list"
  design_reads :: "string list"
  design_writes :: "design list"

definition ensureIndexes_run ::
  "(string option \<Rightarrow> string) \<Rightarrow> ('f, 'a) index_world \<Rightarrow> error option \<times> ('f, 'a) index_world" where
  "ensureIndexes_run toCollectionName w =
     (case ensureIndexes toCollectionName (the_model w) of
        (Inl e, m) \<Rightarrow> (Some e, w\<lparr>the_model := m\<rparr>)
      | (Inr None, m) \<Rightarrow> (None, w\<lparr>the_model := m\<rparr>)
      | (Inr (Some cl), m) \<Rightarrow>
          (let ident = ''_design/'' @ designDoc cl;
               w1 = w\<lparr>the_model := m, design_reads := design_reads w @ [ident]\<rparr>
           in case findById_callback cl (map_of (design_store w) ident) m of
                Inl e \<Rightarrow> (Some e, w1)
              | Inr (None, m') \<Rightarrow> (None, w1\<lparr>the_model := ensure_done None m'\<rparr>)
              | Inr (Some d, m') \<Rightarrow>
                  (None, w1\<lparr>the_model := ensure_done None m',
                            design_store := obj_set ident d (design_store w1),
                            design_writes := design_writes w1 @ [d]\<rparr>)))"

section \<open>Example schemas\<close>

text \<open>The schemas of example-discriminator.js, cut down: a root schema and the variant
  \<^verbatim>\<open>User\<close> with discriminator key \<^verbatim>\<open>$kind\<close>, in the shapes the properties below need.\<close>

definition plain_options :: schema_options where
  "plain_options =
     \<lparr> discriminatorKey = ''$kind'', collection_name = None, autoIndex = Some True,
       disableCache = None, toJSON = None, toObject = None, opt_views = None,
       opt_updates = None, opt_lists = None, forcePlainDiscriminatorIndex = None,
       other_options = [] \<rparr>"

definition user_mapping :: discriminator_mapping where
  "user_mapping = \<lparr> dm_key = ''$kind'', dm_value = Some ''User'', isRoot = False \<rparr>"

definition root_mapping :: discriminator_mapping where
  "root_mapping = \<lparr> dm_key = ''$kind'', dm_value = None, isRoot = True \<rparr>"

definition model_of :: "string \<Rightarrow> schema \<Rightarrow> (nat, nat) model" where
  "model_of name s =
     \<lparr> modelName = name, schema = s, defaultView = None,
       collection = (Collection True)\<lparr>buffer := False\<rparr>,
       discriminators = None, index_events = [] \<rparr>"

definition world_of :: "(nat, nat) model \<Rightarrow> (nat, nat) index_world" where
  "world_of m = \<lparr> the_model = m, design_store = [], design_reads = [], design_writes = [] \<rparr>"

text \<open>The variant \<^verbatim>\<open>User\<close> with one custom list function.\<close>

definition user_with_list :: schema where
  "user_with_list =
     \<lparr> tree = [(''_id'', None), (''name'', None), (''$kind'', None)],
       options = plain_options\<lparr>opt_lists :=
         Some [(''names'', ''function(head, req){ var row; while (row = getRow()) send(row.value.name); }'')]\<rparr>,
       discriminatorMapping = Some user_mapping, callQueue = [] \<rparr>"

text \<open>A root schema with one custom update function and no index or view.\<close>

definition root_with_update :: schema where
  "root_with_update =
     \<lparr> tree = [(''_id'', None), (''name'', None)],
       options = plain_options\<lparr>opt_updates :=
         Some [(''touch'', ''function(doc, req){ doc.touched = true; return [doc, req.id]; }'')]\<rparr>,
       discriminatorMapping = None, callQueue = [] \<rparr>"

text \<open>The variant \<^verbatim>\<open>User\<close> with two custom views: the map of the first is an arrow
  function with an expression body, the map of the second has a comment with a brace in
  its parameter list.\<close>

definition user_with_custom_views :: schema where
  "user_with_custom_views =
     \<lparr> tree = [(''_id'', None), (''name'', None), (''$kind'', None)],
       options = plain_options\<lparr>opt_views :=
         Some [(''names'', \<lparr> spec_map = Some ''doc => emit(doc.name, doc)'', spec_reduce = None,
                            asDefaultIndex = False \<rparr>),
               (''owners'', \<lparr> spec_map = Some ''function (doc /* {owner} */) { emit(doc.owner, doc); }'',
                             spec_reduce = None, asDefaultIndex = False \<rparr>)]\<rparr>,
       discriminatorMapping = Some user_mapping, callQueue = [] \<rparr>"

text \<open>The variant \<^verbatim>\<open>User\<close> with an index on \<^verbatim>\<open>name\<close> and a custom view flagged as the
  default index; the root schema with the same view, before and after a discriminator
  has been registered on it.\<close>

definition names_view :: view_spec where
  "names_view =
     \<lparr> spec_map = Some ''function (doc) { emit(doc.name.toLowerCase(), doc); }'',
       spec_reduce = None, asDefaultIndex = True \<rparr>"

definition user_with_default_view :: schema where
  "user_with_default_view =
     \<lparr> tree = [(''_id'', None), (''name'', Some IndexOn), (''$kind'', None)],
       options = plain_options\<lparr>opt_views := Some [(''names'', names_view)]\<rparr>,
       discriminatorMapping = Some user_mapping, callQueue = [] \<rparr>"

definition root_with_default_view :: schema where
  "root_with_default_view =
     \<lparr> tree = [(''_id'', None), (''name'', None)],
       options = plain_options\<lparr>opt_views := Some [(''names'', names_view)]\<rparr>,
       discriminatorMapping = None, callQueue = [] \<rparr>"

definition root_with_two_defaults :: schema where
  "root_with_two_defaults =
     \<lparr> tree = [(''_id'', None), (''name'', None)],
       options = plain_options\<lparr>opt_views :=
         Some [(''names'', names_view), (''displayNames'', names_view)]\<rparr>,
       discriminatorMapping = None, callQueue = [] \<rparr>"

text \<open>The map source of a view in a design document, if the view is there and has one.\<close>

definition written_map :: "design \<Rightarrow> string \<Rightarrow> string option" where
  "written_map d viewName =
     (case design_views d of
        None \<Rightarrow> None
      | Some vs \<Rightarrow> (case map_of vs viewName of None \<Rightarrow> None | Some def \<Rightarrow> map_of def ''map''))"

section \<open>Discriminators: Model.discriminator\<close>

text \<open>
  Modelled from the spec: \<^verbatim>\<open>Schema.prototype.path\<close> and \<^verbatim>\<open>Schema.prototype.add\<close>
  (lib/schema.js is not among the sources). \<^verbatim>\<open>schema.path(key)\<close> is truthy when
  \<open>key\<close> is a declared path of the schema; \<^verbatim>\<open>schema.add\<close> declares a path.
\<close>

definition path_declared :: "schema \<Rightarrow> string \<Rightarrow> bool" where
  "path_declared s k \<longleftrightarrow> k \<in> set (map fst (tree s))"

text \<open>
  Modelled from the spec: \<^verbatim>\<open>utils.clone\<close>, \<^verbatim>\<open>utils.merge\<close> with
  \<^verbatim>\<open>keepExisting\<close> and \<^verbatim>\<open>utils.deepEqual\<close> (lib/utils.js is not among the sources).
  The merge fills in, option for option, what the first object does not set and keeps
  what it sets; deep equality is option-for-option equality, whatever the order of the
  properties.
\<close>

definition keep_existing :: "'v option \<Rightarrow> 'v option \<Rightarrow> 'v option" where
  "keep_existing a b = (case a of None \<Rightarrow> b | Some v \<Rightarrow> Some v)"

definition merge_object :: "(string \<times> 'v) list \<Rightarrow> (string \<times> 'v) list \<Rightarrow> (string \<times> 'v) list" where
  "merge_object a b = a @ filter (\<lambda>(k, v). k \<notin> set (map fst a)) b"

definition merge_options :: "schema_options \<Rightarrow> schema_options \<Rightarrow> schema_options" where
  "merge_options a b =
     a\<lparr> collection_name := keep_existing (collection_name a) (collection_name b),
        autoIndex := keep_existing (autoIndex a) (autoIndex b),
        disableCache := keep_existing (disableCache a) (disableCache b),
        toJSON := keep_existing (toJSON a) (toJSON b),
        toObject := keep_existing (toObject a) (toObject b),
        opt_views := keep_existing (opt_views a) (opt_views b),
        opt_updates := keep_existing (opt_updates a) (opt_updates b),
        opt_lists := keep_existing (opt_lists a) (opt_lists b),
        forcePlainDiscriminatorIndex :=
          keep_existing (forcePlainDiscriminatorIndex a) (forcePlainDiscriminatorIndex b),
        other_options := merge_object (other_options a) (other_options b) \<rparr>"

definition same_object :: "(string \<times> optval) list \<Rightarrow> (string \<times> optval) list \<Rightarrow> bool" where
  "same_object a b = list_all (\<lambda>k. map_of a k = map_of b k) (map fst a @ map fst b)"

definition deepEqual :: "schema_options \<Rightarrow> schema_options \<Rightarrow> bool" where
  "deepEqual a b \<longleftrightarrow>
     discriminatorKey a = discriminatorKey b \<and> collection_name a = collection_name b
     \<and> autoIndex a = autoIndex b \<and> disableCache a = disableCache b
     \<and> toJSON a = toJSON b \<and> toObject a = toObject b \<and> opt_views a = opt_views b
     \<and> opt_updates a = opt_updates b \<and> opt_lists a = opt_lists b
     \<and> forcePlainDiscriminatorIndex a = forcePlainDiscriminatorIndex b
     \<and> same_object (other_options a) (other_options b)"

text \<open>\<^verbatim>\<open>mergeSchemas\<close>, first step: \<^verbatim>\<open>collection\<close>, \<^verbatim>\<open>autoIndex\<close> and
  \<^verbatim>\<open>disableCache\<close> are taken from the base schema where it sets them.\<close>

definition ignore_derived_options :: "schema_options \<Rightarrow> schema_options \<Rightarrow> schema_options" where
  "ignore_derived_options child base =
     child\<lparr> collection_name :=
               (case collection_name base of None \<Rightarrow> collection_name child | Some v \<Rightarrow> Some v),
            autoIndex := (case autoIndex base of None \<Rightarrow> autoIndex child | Some v \<Rightarrow> Some v),
            disableCache :=
               (case disableCache base of None \<Rightarrow> disableCache child | Some v \<Rightarrow> Some v) \<rparr>"

text \<open>\<^verbatim>\<open>validateOptions(a, b)\<close>: the customizable options of the merged copy are set to
  the base's when truthy there and deleted otherwise; the result must equal the base's
  options. An option object (\<^verbatim>\<open>toJSON\<close>, \<^verbatim>\<open>views\<close>, ...) is truthy when set.\<close>

definition validateOptions :: "schema_options \<Rightarrow> schema_options \<Rightarrow> bool" where
  "validateOptions a b =
     (let a1 = merge_options a b;
          a2 = a1\<lparr> toJSON := toJSON b, toObject := toObject b, opt_views := opt_views b,
                   opt_updates := opt_updates b, opt_lists := opt_lists b,
                   forcePlainDiscriminatorIndex :=
                     (if truthy_bool (forcePlainDiscriminatorIndex b)
                      then forcePlainDiscriminatorIndex b else None) \<rparr>
      in deepEqual a2 b)"

text \<open>\<^verbatim>\<open>mergeSchemas(schema, baseSchema)\<close>: the error thrown with the derived schema as
  it is left, or the merged schema.\<close>

definition mergeSchemas :: "string \<Rightarrow> string \<Rightarrow> schema \<Rightarrow> schema \<Rightarrow> error \<times> schema + schema" where
  "mergeSchemas name key child base =
     (let s1 = child\<lparr>options := ignore_derived_options (options child) (options base)\<rparr> in
      if \<not> validateOptions (options s1) (options base) then Inl (NotCustomizable, s1)
      else
        (let own = options s1;
             stripped = own\<lparr> opt_views := None, opt_updates := None, opt_lists := None,
                             forcePlainDiscriminatorIndex := None \<rparr>;
             merged = (merge_options stripped (options base))
                        \<lparr> opt_views := opt_views own, opt_updates := opt_updates own,
                          opt_lists := opt_lists own,
                          forcePlainDiscriminatorIndex :=
                            (if truthy_bool (forcePlainDiscriminatorIndex own)
                             then forcePlainDiscriminatorIndex own else None) \<rparr>
         in Inr \<lparr> tree = obj_set key None (merge_object (tree s1) (tree base)),
                  options = merged,
                  discriminatorMapping =
                    Some \<lparr> dm_key = key, dm_value = Some name, isRoot = False \<rparr>,
                  callQueue = callQueue base @ callQueue s1 \<rparr>))"

text \<open>
  \<^verbatim>\<open>Model.discriminator(name, schema)\<close>. The argument is \<open>None\<close> when it is not a
  Schema instance. The result is the error thrown (\<open>None\<close>: the call returns the derived
  model), the schema argument as the call leaves it, and the model. The derived model
  that \<^verbatim>\<open>this.db.model\<close> compiles (lib/connection.js is not among the sources) is
  recorded in the registry by its schema.
\<close>

definition discriminator ::
  "string \<Rightarrow> schema option \<Rightarrow> ('f, 'a) model \<Rightarrow> error option \<times> schema option \<times> ('f, 'a) model" where
  "discriminator name arg m =
     (case arg of
        None \<Rightarrow> (Some NotASchema, None, m)
      | Some child \<Rightarrow>
          if (case discriminatorMapping (schema m) of None \<Rightarrow> False | Some dm \<Rightarrow> \<not> isRoot dm)
          then (Some (NotRootModel name), Some child, m)
          else
            (let key = discriminatorKey (options (schema m)) in
             if path_declared child key then (Some (FieldNameClash name key), Some child, m)
             else
               (case mergeSchemas name key child (schema m) of
                  Inl (e, child') \<Rightarrow> (Some e, Some child', m)
                | Inr merged \<Rightarrow>
                    (let registry = (case discriminators m of None \<Rightarrow> [] | Some ds \<Rightarrow> ds);
                         m1 = m\<lparr>discriminators := Some registry\<rparr>;
                         m2 = (if discriminatorMapping (schema m1) = None
                               then m1\<lparr>schema := (schema m1)\<lparr>discriminatorMapping :=
                                      Some \<lparr> dm_key = key, dm_value = None, isRoot = True \<rparr>\<rparr>\<rparr>
                               else m1)
                     in case map_of registry name of
                          Some existing \<Rightarrow> (Some (AlreadyExists name), Some merged, m2)
                        | None \<Rightarrow>
                            (None, Some merged,
                             m2\<lparr>discriminators := Some (obj_set name merged registry)\<rparr>)))))"

text \<open>The conditions of claim C9. A schema is a non-root discriminator; the options of a
  derived schema differ from the root's somewhere outside the customizable subset; the
  derived schema sets an option that validation rejects: a discriminator key other than
  the root's, one of \<^verbatim>\<open>collection\<close>, \<^verbatim>\<open>autoIndex\<close>, \<^verbatim>\<open>disableCache\<close> that the root
  does not set, or any other option with a value that is not the root's.\<close>

definition non_root :: "schema \<Rightarrow> bool" where
  "non_root s = (case discriminatorMapping s of None \<Rightarrow> False | Some dm \<Rightarrow> \<not> isRoot dm)"

definition differs_outside_customizable :: "schema_options \<Rightarrow> schema_options \<Rightarrow> bool" where
  "differs_outside_customizable c r \<longleftrightarrow>
     discriminatorKey c \<noteq> discriminatorKey r \<or> collection_name c \<noteq> collection_name r
     \<or> autoIndex c \<noteq> autoIndex r \<or> disableCache c \<noteq> disableCache r
     \<or> \<not> same_object (other_options c) (other_options r)"

definition sets_rejected_option :: "schema_options \<Rightarrow> schema_options \<Rightarrow> bool" where
  "sets_rejected_option c r \<longleftrightarrow>
     discriminatorKey c \<noteq> discriminatorKey r
     \<or> (collection_name r = None \<and> collection_name c \<noteq> None)
     \<or> (autoIndex r = None \<and> autoIndex c \<noteq> None)
     \<or> (disableCache r = None \<and> disableCache c \<noteq> None)
     \<or> list_ex (\<lambda>k. map_of (other_options c) k \<noteq> map_of (other_options r) k)
          (map fst (other_options c))"

text \<open>Example schemas: a root schema that sets \<^verbatim>\<open>strict\<close>, and three derived schemas:
  one that only turns \<^verbatim>\<open>autoIndex\<close> off, one that sets no option of its own, and one
  that sets \<^verbatim>\<open>strict\<close> to another value.\<close>

definition entity_schema :: schema where
  "entity_schema =
     \<lparr> tree = [(''_id'', None), (''name'', None)],
       options = plain_options\<lparr>other_options := [(''strict'', OBool True)]\<rparr>,
       discriminatorMapping = None, callQueue = [] \<rparr>"

definition user_no_autoindex :: schema where
  "user_no_autoindex =
     \<lparr> tree = [(''_id'', None), (''age'', None)],
       options = plain_options\<lparr>autoIndex := Some False,
                               other_options := [(''strict'', OBool True)]\<rparr>,
       discriminatorMapping = None, callQueue = [] \<rparr>"

definition user_lax :: schema where
  "user_lax =
     \<lparr> tree = [(''_id'', None), (''age'', None)],
       options = plain_options\<lparr>other_options := [(''strict'', OBool False)]\<rparr>,
       discriminatorMapping = None, callQueue = [] \<rparr>"

section \<open>Properties of the command queue\<close>

lemma apply_entry_buffer: "buffer (apply_entry e c) = buffer c"
  by (cases "(e, c)" rule: apply_entry.cases)
     (auto simp: driver_call_def maybeQueueCall_def emit_effect_def Let_def split: prod.splits)

lemma apply_entry_ensuringIndexes: "ensuringIndexes (apply_entry e c) = ensuringIndexes c"
  by (cases "(e, c)" rule: apply_entry.cases)
     (auto simp: driver_call_def maybeQueueCall_def emit_effect_def Let_def split: prod.splits)

lemma apply_entry_queue:
  "entry_of_driver e \<Longrightarrow> \<not> (fst (snd e) \<and> ensuringIndexes c \<noteq> 0) \<Longrightarrow>
   queue (apply_entry e c) = queue c @ (if stays (buffer c) (ensuringIndexes c \<noteq> 0) e then [e] else [])"
  by (cases "(e, c)" rule: apply_entry.cases)
     (auto simp: driver_call_def maybeQueueCall_def emit_effect_def Let_def split: prod.splits)

lemma apply_entry_calls:
  "entry_of_driver e \<Longrightarrow> \<not> (fst (snd e) \<and> ensuringIndexes c \<noteq> 0) \<Longrightarrow>
   filter is_call (effects (apply_entry e c)) =
     filter is_call (effects c) @ (if stays (buffer c) (ensuringIndexes c \<noteq> 0) e then [] else [run_effect e])"
  by (cases "(e, c)" rule: apply_entry.cases)
     (auto simp: driver_call_def maybeQueueCall_def emit_effect_def Let_def split: prod.splits)

lemma apply_entry_effects_open:
  "entry_of_driver e \<Longrightarrow> \<not> (fst (snd e) \<and> ensuringIndexes c \<noteq> 0) \<Longrightarrow> \<not> buffer c \<Longrightarrow>
   effects (apply_entry e c) = effects c @ [run_effect e]"
  by (cases "(e, c)" rule: apply_entry.cases)
     (auto simp: driver_call_def maybeQueueCall_def emit_effect_def Let_def split: prod.splits)

lemma stays_held: "fst (snd e) \<and> ix \<Longrightarrow> stays buf ix e"
  by (cases "(buf, ix, e)" rule: stays.cases) auto

lemma doQueue_loop_held:
  "fst (snd e) \<and> ix \<Longrightarrow>
   doQueue_loop ix (e # es) c = doQueue_loop ix es (c\<lparr>queue := queue c @ [e]\<rparr>)"
  by simp

lemma doQueue_loop_run:
  "\<not> (fst (snd e) \<and> ix) \<Longrightarrow> doQueue_loop ix (e # es) c = doQueue_loop ix es (apply_entry e c)"
  by auto

lemma doQueue_loop_queue:
  "\<forall>e\<in>set es. entry_of_driver e \<Longrightarrow> ix = (ensuringIndexes c \<noteq> 0) \<Longrightarrow>
   queue (doQueue_loop ix es c) = queue c @ filter (stays (buffer c) ix) es"
proof (induction es arbitrary: c)
  case Nil
  show ?case by simp
next
  case (Cons e es)
  have wf: "entry_of_driver e" and wfs: "\<forall>e\<in>set es. entry_of_driver e"
    using Cons.prems by auto
  show ?case
  proof (cases "fst (snd e) \<and> ix")
    case True
    have "queue (doQueue_loop ix es (c\<lparr>queue := queue c @ [e]\<rparr>)) =
          (queue c @ [e]) @ filter (stays (buffer c) ix) es"
      using Cons.IH[OF wfs, of "c\<lparr>queue := queue c @ [e]\<rparr>"] Cons.prems(2) by simp
    moreover have "stays (buffer c) ix e" by (rule stays_held[OF True])
    ultimately show ?thesis unfolding doQueue_loop_held[OF True] by simp
  next
    case False
    have nh: "\<not> (fst (snd e) \<and> ensuringIndexes c \<noteq> 0)" using False Cons.prems(2) by simp
    have "queue (doQueue_loop ix es (apply_entry e c)) =
          queue (apply_entry e c) @ filter (stays (buffer c) ix) es"
      using Cons.IH[OF wfs, of "apply_entry e c"] Cons.prems(2)
      by (simp add: apply_entry_buffer apply_entry_ensuringIndexes)
    moreover have "queue (apply_entry e c) = queue c @ (if stays (buffer c) ix e then [e] else [])"
      using apply_entry_queue[OF wf nh] Cons.prems(2) by simp
    ultimately show ?thesis unfolding doQueue_loop_run[OF False] by simp
  qed
qed

lemma doQueue_loop_calls:
  "\<forall>e\<in>set es. entry_of_driver e \<Longrightarrow> ix = (ensuringIndexes c \<noteq> 0) \<Longrightarrow>
   filter is_call (effects (doQueue_loop ix es c)) =
     filter is_call (effects c) @ map run_effect (filter (\<lambda>e. \<not> stays (buffer c) ix e) es)"
proof (induction es arbitrary: c)
  case Nil
  show ?case by simp
next
  case (Cons e es)
  have wf: "entry_of_driver e" and wfs: "\<forall>e\<in>set es. entry_of_driver e"
    using Cons.prems by auto
  show ?case
  proof (cases "fst (snd e) \<and> ix")
    case True
    have "filter is_call (effects (doQueue_loop ix es (c\<lparr>queue := queue c @ [e]\<rparr>))) =
          filter is_call (effects c) @ map run_effect (filter (\<lambda>e. \<not> stays (buffer c) ix e) es)"
      using Cons.IH[OF wfs, of "c\<lparr>queue := queue c @ [e]\<rparr>"] Cons.prems(2) by simp
    moreover have "stays (buffer c) ix e" by (rule stays_held[OF True])
    ultimately show ?thesis unfolding doQueue_loop_held[OF True] by simp
  next
    case False
    have nh: "\<not> (fst (snd e) \<and> ensuringIndexes c \<noteq> 0)" using False Cons.prems(2) by simp
    have "filter is_call (effects (doQueue_loop ix es (apply_entry e c))) =
          filter is_call (effects (apply_entry e c)) @
          map run_effect (filter (\<lambda>e. \<not> stays (buffer c) ix e) es)"
      using Cons.IH[OF wfs, of "apply_entry e c"] Cons.prems(2)
      by (simp add: apply_entry_buffer apply_entry_ensuringIndexes)
    moreover have "filter is_call (effects (apply_entry e c)) =
        filter is_call (effects c) @ (if stays (buffer c) ix e then [] else [run_effect e])"
      using apply_entry_calls[OF wf nh] Cons.prems(2) by simp
    ultimately show ?thesis unfolding doQueue_loop_run[OF False] by simp
  qed
qed

lemma doQueue_loop_effects_open:
  "\<forall>e\<in>set es. entry_of_driver e \<Longrightarrow> ix = (ensuringIndexes c \<noteq> 0) \<Longrightarrow> \<not> buffer c \<Longrightarrow>
   effects (doQueue_loop ix es c) =
     effects c @ map run_effect (filter (\<lambda>e. \<not> (fst (snd e) \<and> ix)) es)"
proof (induction es arbitrary: c)
  case Nil
  show ?case by simp
next
  case (Cons e es)
  have wf: "entry_of_driver e" and wfs: "\<forall>e\<in>set es. entry_of_driver e"
    using Cons.prems by auto
  show ?case
  proof (cases "fst (snd e) \<and> ix")
    case True
    have "effects (doQueue_loop ix es (c\<lparr>queue := queue c @ [e]\<rparr>)) =
          effects c @ map run_effect (filter (\<lambda>e. \<not> (fst (snd e) \<and> ix)) es)"
      using Cons.IH[OF wfs, of "c\<lparr>queue := queue c @ [e]\<rparr>"] Cons.prems(2,3) by simp
    then show ?thesis unfolding doQueue_loop_held[OF True] using True by simp
  next
    case False
    have nh: "\<not> (fst (snd e) \<and> ensuringIndexes c \<noteq> 0)" using False Cons.prems(2) by simp
    have "effects (doQueue_loop ix es (apply_entry e c)) =
          effects (apply_entry e c) @ map run_effect (filter (\<lambda>e. \<not> (fst (snd e) \<and> ix)) es)"
      using Cons.IH[OF wfs, of "apply_entry e c"] Cons.prems(2,3)
      by (simp add: apply_entry_buffer apply_entry_ensuringIndexes)
    moreover note apply_entry_effects_open[OF wf nh Cons.prems(3)]
    ultimately show ?thesis unfolding doQueue_loop_run[OF False] using False by simp
  qed
qed

lemma stays_open: "entry_of_driver e \<Longrightarrow> stays False ix e = (fst (snd e) \<and> ix)"
  by (cases "(False, ix, e)" rule: stays.cases) auto

lemma stays_buffering: "stays True ix = (\<lambda>e. (fst (snd e) \<and> ix) \<or> is_driver_method e)"
proof
  fix e :: "('a, 'b) entry"
  show "stays True ix e = ((fst (snd e) \<and> ix) \<or> is_driver_method e)"
    by (cases "(True, ix, e)" rule: stays.cases) auto
qed

text \<open>
  Claim C3. A flush runs the entries that are not held, in arrival order, and puts the
  held ones (index-gated while index synthesis is in progress) back in the queue in
  their relative order. With the connection open, the effects of the flush are exactly
  the calls of the entries that are not held, in order, and the queue afterwards is the
  sequence of held entries. While the collection is still buffering, a driver method
  that is run queues itself again, so the queue keeps the held entries and the driver
  methods in their original order and only deferred functions are called.
\<close>

theorem doQueue_order:
  assumes wf: "\<forall>e\<in>set (queue c). entry_of_driver e"
  shows "(\<not> buffer c \<longrightarrow>
            queue (doQueue c) = filter (held c) (queue c) \<and>
            effects (doQueue c) = effects c @ map run_effect (filter (\<lambda>e. \<not> held c e) (queue c)))
       \<and> (buffer c \<longrightarrow>
            queue (doQueue c) = filter (\<lambda>e. held c e \<or> is_driver_method e) (queue c) \<and>
            filter is_call (effects (doQueue c)) =
              filter is_call (effects c) @
              map run_effect (filter (\<lambda>e. \<not> (held c e \<or> is_driver_method e)) (queue c)))"
proof -
  let ?c = "c\<lparr>queue := []\<rparr>"
  let ?ix = "ensuringIndexes c \<noteq> 0"
  have q: "queue (doQueue c) = filter (stays (buffer c) ?ix) (queue c)"
    unfolding doQueue_def using doQueue_loop_queue[OF wf, of ?ix ?c] by simp
  have k: "filter is_call (effects (doQueue c)) =
     filter is_call (effects c) @ map run_effect (filter (\<lambda>e. \<not> stays (buffer c) ?ix e) (queue c))"
    unfolding doQueue_def using doQueue_loop_calls[OF wf, of ?ix ?c] by simp
  have "queue (doQueue c) = filter (held c) (queue c)" if "\<not> buffer c"
    unfolding q using that wf by (auto intro!: filter_cong simp: stays_open held_def)
  moreover have "effects (doQueue c) = effects c @ map run_effect (filter (\<lambda>e. \<not> held c e) (queue c))"
    if "\<not> buffer c"
    unfolding doQueue_def using doQueue_loop_effects_open[OF wf, of ?ix ?c] that
    by (simp add: held_def)
  moreover have "queue (doQueue c) = filter (\<lambda>e. held c e \<or> is_driver_method e) (queue c)" if "buffer c"
    unfolding q using that by (simp add: stays_buffering held_def)
  moreover have "filter is_call (effects (doQueue c)) =
              filter is_call (effects c) @
              map run_effect (filter (\<lambda>e. \<not> (held c e \<or> is_driver_method e)) (queue c))" if "buffer c"
    unfolding k using that by (simp add: stays_buffering held_def)
  ultimately show ?thesis by blast
qed

theorem doQueue_order_witness:
  "queue (doQueue indexing_collection) = [(DriverMethod FindWithView, True, Some 2)]
   \<and> effects (doQueue indexing_collection) =
       [StoreCall Insert (Some 1), FnCall 7 False, StoreCall Remove (Some 3)]"
proof -
  have wf: "\<forall>e\<in>set (queue indexing_collection). entry_of_driver e"
    by (simp add: indexing_collection_def)
  from doQueue_order[OF wf] show ?thesis
    by (simp add: indexing_collection_def held_def)
qed

lemma driver_call_buffering:
  "buffer c \<Longrightarrow>
   driver_call m a c =
     c\<lparr>queue := queue c @ [(DriverMethod m, waitsForIndexes m, a)], ensuringDb := True,
       effects := effects c @ (if ensuringDb c then [] else [EnsureDb])\<rparr>"
  by (simp add: driver_call_def maybeQueueCall_def emit_effect_def Let_def)

lemma driver_calls_buffering:
  "buffer c \<Longrightarrow>
   foldl (\<lambda>c (m, a). driver_call m a c) c ops =
     c\<lparr>queue := queue c @ map (\<lambda>(m, a). (DriverMethod m, waitsForIndexes m, a)) ops,
       ensuringDb := (ensuringDb c \<or> ops \<noteq> []),
       effects := effects c @ (if ensuringDb c \<or> ops = [] then [] else [EnsureDb])\<rparr>"
proof (induction ops arbitrary: c)
  case Nil
  then show ?case by simp
next
  case (Cons op ops)
  obtain m a where op: "op = (m, a)" by (cases op)
  let ?c = "driver_call m a c"
  have b: "buffer ?c" using Cons.prems by (simp add: driver_call_buffering)
  show ?case
    unfolding op using Cons.IH[OF b] Cons.prems
    by (simp add: driver_call_buffering)
qed

text \<open>
  Queue ordering. Driver calls submitted to a new buffering collection are queued, and
  start the \<^verbatim>\<open>ensureDb\<close> bootstrap once; when the connection opens (with no index
  synthesis in progress) they reach the store in submission order and the queue is empty.
\<close>

theorem buffered_calls_run_in_submission_order:
  fixes ops :: "(driver_method \<times> 'a option) list"
  defines "opened \<equiv>
    onOpen (foldl (\<lambda>c (m, a). driver_call m a c) (Collection True :: ('f, 'a) collection) ops)"
  shows "effects opened = (if ops = [] then [] else [EnsureDb]) @ map (\<lambda>(m, a). StoreCall m a) ops
       \<and> queue opened = []"
proof -
  let ?q = "map (\<lambda>(m, a). (DriverMethod m, waitsForIndexes m, a)) ops :: ('f, 'a) entry list"
  let ?init = "Collection True :: ('f, 'a) collection"
  let ?c = "foldl (\<lambda>c (m, a). driver_call m a c) ?init ops"
  let ?o = "?c\<lparr>buffer := False, ensuringDb := False, queue := []\<rparr>"
  have c: "?c = \<lparr> bufferCommands = True, buffer = True, ensuringDb = (ops \<noteq> []),
                  ensuringIndexes = 0, queue = ?q,
                  effects = (if ops = [] then [] else [EnsureDb]) \<rparr>"
    using driver_calls_buffering[where c = ?init and ops = ops] by (simp add: Collection_def)
  have wf: "\<forall>e\<in>set ?q. entry_of_driver e" by auto
  have run: "map run_effect (filter (\<lambda>e. \<not> (fst (snd e) \<and> False)) ?q) =
             map (\<lambda>(m, a). StoreCall m a) ops"
    by (induction ops) auto
  have stay: "filter (stays False False) ?q = []"
    by (induction ops) auto
  have "effects (doQueue_loop False ?q ?o) = effects ?o @ map (\<lambda>(m, a). StoreCall m a) ops"
    unfolding c run[symmetric]
    by (rule doQueue_loop_effects_open[OF wf]) simp_all
  moreover have "queue (doQueue_loop False ?q ?o) = []"
    unfolding c using doQueue_loop_queue[OF wf, where ix = False] stay by simp
  ultimately show ?thesis
    unfolding opened_def onOpen_def doQueue_def c by simp
qed


section \<open>Properties of save and remove\<close>

lemmas doc_defs =
  save_def handleSave_def remove_def remove_callback_def store_answers_def new_Promise_def
  resolve_promise_def addBack_def emit_doc_def collection_insert_def collection_remove_def
  callbacks_of_def outcome_of_def

lemma resolve_promise_frame:
  "length (promises (resolve_promise q out w)) = length (promises w)"
  "q \<noteq> p \<Longrightarrow> promises (resolve_promise q out w) ! p = promises w ! p"
  "in_flight (resolve_promise q out w) = in_flight w"
  "self (resolve_promise q out w) = self w"
  by (simp_all add: resolve_promise_def)

lemma handleSave_frame:
  "length (promises (handleSave q reply w)) = length (promises w)"
  "q \<noteq> p \<Longrightarrow> promises (handleSave q reply w) ! p = promises w ! p"
  "in_flight (handleSave q reply w) = in_flight w"
  "removing (self (handleSave q reply w)) = removing (self w)"
  by (cases reply; simp add: handleSave_def resolve_promise_frame emit_doc_def Let_def
      split: prod.splits)+

lemma remove_callback_frame:
  "length (promises (remove_callback q err w)) = length (promises w)"
  "q \<noteq> p \<Longrightarrow> promises (remove_callback q err w) ! p = promises w ! p"
  "in_flight (remove_callback q err w) = in_flight w"
  "removing (self (remove_callback q err w)) = None
   \<or> removing (self (remove_callback q err w)) = removing (self w)"
  by (cases err; simp add: remove_callback_def resolve_promise_frame emit_doc_def Let_def)+

lemma store_answers_frame:
  "length (promises (store_answers k reply w)) = length (promises w)"
  "promise_of k \<noteq> p \<Longrightarrow> promises (store_answers k reply w) ! p = promises w ! p"
  "in_flight (store_answers k reply w) = remove1 k (in_flight w)"
  "removing (self (store_answers k reply w)) = None
   \<or> removing (self (store_answers k reply w)) = removing (self w)"
  using remove_callback_frame(4)[of "promise_of k" _ "w\<lparr>in_flight := remove1 k (in_flight w)\<rparr>"]
  by (cases k; simp add: store_answers_def handleSave_frame remove_callback_frame)+

lemma save_frame:
  "promises (save fn w) = promises w @ [\<lparr>listeners = callbacks_of fn, settled = None\<rparr>]"
  "in_flight (save fn w) = in_flight w @ [HandleSave (length (promises w))]"
  "removing (self (save fn w)) = removing (self w)"
  by (simp_all add: save_def new_Promise_def collection_insert_def emit_doc_def Let_def)

lemma remove_frame:
  "removing (self w) = None \<Longrightarrow>
     promises (remove fn w) = promises w @ [\<lparr>listeners = callbacks_of fn, settled = None\<rparr>]
     \<and> in_flight (remove fn w) = in_flight w @ [RemoveDone (length (promises w))]
     \<and> removing (self (remove fn w)) = Some (length (promises w))"
  "removing (self w) = Some q \<Longrightarrow>
     length (promises (remove fn w)) = length (promises w)
     \<and> (q \<noteq> p \<longrightarrow> promises (remove fn w) ! p = promises w ! p)
     \<and> in_flight (remove fn w) = in_flight w
     \<and> removing (self (remove fn w)) = Some q"
  by (simp_all add: remove_def new_Promise_def collection_remove_def addBack_def Let_def
      split: option.splits)

lemma write_pending_save:
  assumes "well_formed w"
  shows "write_pending (length (promises w)) fn (save fn w)"
proof -
  have "\<forall>k\<in>set (in_flight w). promise_of k < length (promises w)"
    using assms by (simp add: well_formed_def list_all_iff)
  moreover have "case removing (self w) of None \<Rightarrow> True | Some q \<Rightarrow> q < length (promises w)"
    using assms by (simp add: well_formed_def)
  ultimately show ?thesis
    unfolding write_pending_def save_frame
    by (auto simp: list_all_iff split: option.splits)
qed

lemma write_pending_occurs:
  assumes wp: "write_pending p fn w" and na: "\<not> answers_write p ev"
  shows "write_pending p fn (occurs ev w)"
proof -
  from wp have p: "p < length (promises w)"
    and fresh: "promises w ! p = \<lparr>listeners = callbacks_of fn, settled = None\<rparr>"
    and fl: "\<forall>k\<in>set (in_flight w). promise_of k < length (promises w)
               \<and> (promise_of k = p \<longrightarrow> k = HandleSave p)"
    and rm: "case removing (self w) of None \<Rightarrow> True | Some q \<Rightarrow> q < length (promises w) \<and> q \<noteq> p"
    by (simp_all add: write_pending_def list_all_iff)
  show ?thesis
  proof (cases ev)
    case (CallSave fn')
    show ?thesis unfolding CallSave occurs.simps write_pending_def save_frame
      using p fresh fl rm by (auto simp: list_all_iff nth_append split: option.splits)
  next
    case (CallRemove fn')
    show ?thesis
    proof (cases "removing (self w)")
      case None
      note f = remove_frame(1)[OF None, of fn']
      show ?thesis unfolding CallRemove occurs.simps write_pending_def
        using p fresh fl f by (auto simp: list_all_iff nth_append)
    next
      case (Some q)
      with rm have q: "q < length (promises w)" "q \<noteq> p" by simp_all
      note f = remove_frame(2)[OF Some, of fn' p]
      show ?thesis unfolding CallRemove occurs.simps write_pending_def
        using p fresh fl f q by (auto simp: list_all_iff)
    qed
  next
    case (StoreAnswers k reply)
    show ?thesis
    proof (cases "k \<in> set (in_flight w)")
      case False
      then show ?thesis using wp unfolding StoreAnswers by simp
    next
      case True
      from na have "k \<noteq> HandleSave p" unfolding StoreAnswers by simp
      with True fl have kp: "promise_of k \<noteq> p" by blast
      have sub: "set (remove1 k (in_flight w)) \<subseteq> set (in_flight w)" by (rule set_remove1_subset)
      let ?w = "store_answers k reply w"
      have "removing (self ?w) = None \<or> removing (self ?w) = removing (self w)"
        by (rule store_answers_frame(4))
      then have rm': "case removing (self ?w) of None \<Rightarrow> True
                      | Some q \<Rightarrow> q < length (promises w) \<and> q \<noteq> p"
        using rm by (auto split: option.splits)
      have "write_pending p fn ?w"
        unfolding write_pending_def store_answers_frame(1) store_answers_frame(2)[OF kp]
          store_answers_frame(3)
        using p fresh fl sub rm' by (auto simp: list_all_iff)
      then show ?thesis using True unfolding StoreAnswers by simp
    qed
  qed
qed

lemma write_pending_run:
  "write_pending p fn w \<Longrightarrow> \<forall>ev\<in>set evs. \<not> answers_write p ev \<Longrightarrow>
   write_pending p fn (foldl (\<lambda>w ev. occurs ev w) w evs)"
  by (induction evs arbitrary: w) (auto intro: write_pending_occurs)

lemma removal_keeps_document:
  assumes "is_removal ev"
  shows "doc_id (self (occurs ev w)) = doc_id (self w)
       \<and> doc_rev (self (occurs ev w)) = doc_rev (self w)
       \<and> isNew (self (occurs ev w)) = isNew (self w)
       \<and> inserting (self (occurs ev w)) = inserting (self w)"
proof (cases ev)
  case (CallSave fn')
  with assms show ?thesis by simp
next
  case (CallRemove fn')
  show ?thesis unfolding CallRemove
    by (simp add: remove_def addBack_def new_Promise_def collection_remove_def Let_def
        split: option.splits)
next
  case (StoreAnswers k reply)
  with assms obtain q where k: "k = RemoveDone q" by (cases k) auto
  show ?thesis unfolding StoreAnswers k
    by (cases reply)
       (simp_all add: store_answers_def remove_callback_def resolve_promise_def emit_doc_def Let_def)
qed

lemma removals_keep_document:
  "\<forall>ev\<in>set evs. is_removal ev \<Longrightarrow>
   doc_id (self (foldl (\<lambda>w ev. occurs ev w) w evs)) = doc_id (self w)
   \<and> doc_rev (self (foldl (\<lambda>w ev. occurs ev w) w evs)) = doc_rev (self w)
   \<and> isNew (self (foldl (\<lambda>w ev. occurs ev w) w evs)) = isNew (self w)
   \<and> inserting (self (foldl (\<lambda>w ev. occurs ev w) w evs)) = inserting (self w)"
  by (induction evs arbitrary: w) (simp_all add: removal_keeps_document)

lemma pending_write_fails:
  assumes "write_pending p fn w"
  shows "notified (store_answers (HandleSave p) (Inl e) w) =
           notified w @ map (\<lambda>f. (f, Failed e)) (callbacks_of fn)"
    and "inserting (self w) \<Longrightarrow> isNew (self (store_answers (HandleSave p) (Inl e) w))"
    and "doc_id (self (store_answers (HandleSave p) (Inl e) w)) = doc_id (self w)"
    and "doc_rev (self (store_answers (HandleSave p) (Inl e) w)) = doc_rev (self w)"
  using assms
  by (simp_all add: write_pending_def store_answers_def handleSave_def resolve_promise_def
      emit_doc_def Let_def)

lemma pending_write_succeeds:
  assumes "write_pending p fn w"
  shows "notified (store_answers (HandleSave p) (Inr (rid, rrev)) w) =
           notified w @ map (\<lambda>f. (f, Completed)) (callbacks_of fn)"
    and "doc_id (self (store_answers (HandleSave p) (Inr (rid, rrev)) w)) = rid"
    and "doc_rev (self (store_answers (HandleSave p) (Inr (rid, rrev)) w)) = Some rrev"
    and "isNew (self (store_answers (HandleSave p) (Inr (rid, rrev)) w)) = isNew (self w)"
  using assms
  by (simp_all add: write_pending_def store_answers_def handleSave_def resolve_promise_def
      emit_doc_def Let_def)

lemma save_new_again:
  "isNew (self w) \<Longrightarrow>
   store_calls (save fn w) = store_calls w @ [InsertDoc (doc_id (self w)) (doc_rev (self w))]"
  by (simp add: save_def new_Promise_def collection_insert_def emit_doc_def Let_def)


lemma save_then_activity:
  fixes w :: "('cb, 'e) doc_world" and fn :: "'cb option" and evs :: "('cb, 'e) activity list"
  assumes new: "isNew (self w)" and wf: "well_formed w"
    and quiet: "\<forall>ev\<in>set evs. \<not> answers_write (length (promises w)) ev"
  defines "w' \<equiv> foldl (\<lambda>w ev. occurs ev w) (save fn w) evs"
  shows "notified (store_answers (HandleSave (length (promises w))) (Inl e) w') =
           notified w' @ map (\<lambda>f. (f, Failed e)) (callbacks_of fn)"
    and "notified (store_answers (HandleSave (length (promises w))) (Inr (rid, rrev)) w') =
           notified w' @ map (\<lambda>f. (f, Completed)) (callbacks_of fn)"
    and "doc_id (self (store_answers (HandleSave (length (promises w))) (Inr (rid, rrev)) w')) = rid"
    and "doc_rev (self (store_answers (HandleSave (length (promises w))) (Inr (rid, rrev)) w')) =
           Some rrev"
    and "\<forall>ev\<in>set evs. is_removal ev \<Longrightarrow>
           isNew (self (store_answers (HandleSave (length (promises w))) (Inl e) w'))
           \<and> doc_id (self (store_answers (HandleSave (length (promises w))) (Inl e) w')) =
               doc_id (self w)
           \<and> store_calls (save fn' (store_answers (HandleSave (length (promises w))) (Inl e) w')) =
               store_calls (store_answers (HandleSave (length (promises w))) (Inl e) w')
               @ [InsertDoc (doc_id (self w)) (doc_rev (self w))]
           \<and> \<not> isNew (self (store_answers (HandleSave (length (promises w))) (Inr (rid, rrev)) w'))"
proof -
  let ?p = "length (promises w)"
  have pend: "write_pending ?p fn w'"
    unfolding w'_def by (rule write_pending_run[OF write_pending_save[OF wf] quiet])
  show "notified (store_answers (HandleSave ?p) (Inl e) w') =
           notified w' @ map (\<lambda>f. (f, Failed e)) (callbacks_of fn)"
    by (rule pending_write_fails(1)[OF pend])
  show "notified (store_answers (HandleSave ?p) (Inr (rid, rrev)) w') =
           notified w' @ map (\<lambda>f. (f, Completed)) (callbacks_of fn)"
    by (rule pending_write_succeeds(1)[OF pend])
  show "doc_id (self (store_answers (HandleSave ?p) (Inr (rid, rrev)) w')) = rid"
    by (rule pending_write_succeeds(2)[OF pend])
  show "doc_rev (self (store_answers (HandleSave ?p) (Inr (rid, rrev)) w')) = Some rrev"
    by (rule pending_write_succeeds(3)[OF pend])
  assume rem: "\<forall>ev\<in>set evs. is_removal ev"
  have s1: "doc_id (self (save fn w)) = doc_id (self w)" "doc_rev (self (save fn w)) = doc_rev (self w)"
    "\<not> isNew (self (save fn w))" "inserting (self (save fn w))"
    using new by (simp_all add: save_def new_Promise_def collection_insert_def emit_doc_def Let_def)
  from removals_keep_document[OF rem, of "save fn w"] s1
  have k: "doc_id (self w') = doc_id (self w)" "doc_rev (self w') = doc_rev (self w)"
    "\<not> isNew (self w')" "inserting (self w')"
    unfolding w'_def by simp_all
  let ?w2 = "store_answers (HandleSave ?p) (Inl e) w'"
  have n: "isNew (self ?w2)" by (rule pending_write_fails(2)[OF pend k(4)])
  have i: "doc_id (self ?w2) = doc_id (self w)" "doc_rev (self ?w2) = doc_rev (self w)"
    using pending_write_fails(3,4)[OF pend, of e] k by simp_all
  have "store_calls (save fn' ?w2) = store_calls ?w2 @ [InsertDoc (doc_id (self w)) (doc_rev (self w))]"
    using save_new_again[OF n, of fn'] i by simp
  moreover have "\<not> isNew (self (store_answers (HandleSave ?p) (Inr (rid, rrev)) w'))"
    using pending_write_succeeds(4)[OF pend, of rid rrev] k(3) by simp
  ultimately show "isNew (self ?w2) \<and> doc_id (self ?w2) = doc_id (self w)
           \<and> store_calls (save fn' ?w2) =
               store_calls ?w2 @ [InsertDoc (doc_id (self w)) (doc_rev (self w))]
           \<and> \<not> isNew (self (store_answers (HandleSave ?p) (Inr (rid, rrev)) w'))"
    using n i by simp
qed

lemma save_then_answer:
  assumes "isNew (self w)"
  shows "let p = length (promises w); w1 = save fn w in
     store_calls w1 = store_calls w @ [InsertDoc (doc_id (self w)) (doc_rev (self w))]
   \<and> in_flight w1 = in_flight w @ [HandleSave p]
   \<and> \<not> isNew (self w1) \<and> inserting (self w1)
   \<and> notified w1 = notified w
   \<and> (\<forall>e. let w2 = store_answers (HandleSave p) (Inl e) w1 in
        isNew (self w2) \<and> doc_id (self w2) = doc_id (self w)
        \<and> notified w2 = notified w @ map (\<lambda>f. (f, Failed e)) (callbacks_of fn)
        \<and> (\<forall>fn'. store_calls (save fn' w2) =
              store_calls w2 @ [InsertDoc (doc_id (self w)) (doc_rev (self w))]))
   \<and> (\<forall>rid rrev. let w3 = store_answers (HandleSave p) (Inr (rid, rrev)) w1 in
        doc_id (self w3) = rid \<and> doc_rev (self w3) = Some rrev \<and> \<not> isNew (self w3)
        \<and> notified w3 = notified w @ map (\<lambda>f. (f, Completed)) (callbacks_of fn))"
  using assms by (simp add: doc_defs Let_def nth_append)

text \<open>
  Claim C4, as amended. Saving a new document hands one insert to the store, and before
  the store answers the instance has \<open>isNew = False\<close> and \<open>inserting = True\<close>. Whatever
  happens before the store answers this write (with well-formed references), an error
  answer reaches the caller's completion, and a confirmation makes the instance take the
  confirmed id and revision and notifies the caller's completion of success, once. If
  no other save of the instance is issued or answered before the answer (the answer
  comes at once, or only \<^verbatim>\<open>remove\<close> calls and answers to removals come in between),
  an error answer makes \<open>isNew\<close> true again with the identifier unchanged, and a second
  save then submits an insert with the same identifier.
\<close>

theorem save_new_document:
  assumes "isNew (self w)"
  shows "let p = length (promises w); w1 = save fn w in
     store_calls w1 = store_calls w @ [InsertDoc (doc_id (self w)) (doc_rev (self w))]
   \<and> in_flight w1 = in_flight w @ [HandleSave p]
   \<and> \<not> isNew (self w1) \<and> inserting (self w1)
   \<and> notified w1 = notified w
   \<and> (\<forall>e. let w2 = store_answers (HandleSave p) (Inl e) w1 in
        isNew (self w2) \<and> doc_id (self w2) = doc_id (self w)
        \<and> notified w2 = notified w @ map (\<lambda>f. (f, Failed e)) (callbacks_of fn)
        \<and> (\<forall>fn'. store_calls (save fn' w2) =
              store_calls w2 @ [InsertDoc (doc_id (self w)) (doc_rev (self w))]))
   \<and> (\<forall>rid rrev. let w3 = store_answers (HandleSave p) (Inr (rid, rrev)) w1 in
        doc_id (self w3) = rid \<and> doc_rev (self w3) = Some rrev \<and> \<not> isNew (self w3)
        \<and> notified w3 = notified w @ map (\<lambda>f. (f, Completed)) (callbacks_of fn))
   \<and> (well_formed w \<longrightarrow>
       (\<forall>evs. (\<forall>ev\<in>set evs. \<not> answers_write p ev) \<longrightarrow>
          (let w' = foldl (\<lambda>w ev. occurs ev w) w1 evs in
             (\<forall>e. notified (store_answers (HandleSave p) (Inl e) w') =
                     notified w' @ map (\<lambda>f. (f, Failed e)) (callbacks_of fn))
           \<and> (\<forall>rid rrev. let w3 = store_answers (HandleSave p) (Inr (rid, rrev)) w' in
                 doc_id (self w3) = rid \<and> doc_rev (self w3) = Some rrev
                 \<and> notified w3 = notified w' @ map (\<lambda>f. (f, Completed)) (callbacks_of fn))
           \<and> ((\<forall>ev\<in>set evs. is_removal ev) \<longrightarrow>
                (\<forall>e. let w2 = store_answers (HandleSave p) (Inl e) w' in
                   isNew (self w2) \<and> doc_id (self w2) = doc_id (self w)
                   \<and> (\<forall>fn'. store_calls (save fn' w2) =
                         store_calls w2 @ [InsertDoc (doc_id (self w)) (doc_rev (self w))]))
                \<and> (\<forall>rid rrev.
                     \<not> isNew (self (store_answers (HandleSave p) (Inr (rid, rrev)) w')))))))"
proof -
  note direct = save_then_answer[OF assms, of fn, unfolded Let_def]
  have later: "well_formed w \<longrightarrow>
       (\<forall>evs. (\<forall>ev\<in>set evs. \<not> answers_write (length (promises w)) ev) \<longrightarrow>
          (let w' = foldl (\<lambda>w ev. occurs ev w) (save fn w) evs in
             (\<forall>e. notified (store_answers (HandleSave (length (promises w))) (Inl e) w') =
                     notified w' @ map (\<lambda>f. (f, Failed e)) (callbacks_of fn))
           \<and> (\<forall>rid rrev. let w3 = store_answers (HandleSave (length (promises w))) (Inr (rid, rrev)) w' in
                 doc_id (self w3) = rid \<and> doc_rev (self w3) = Some rrev
                 \<and> notified w3 = notified w' @ map (\<lambda>f. (f, Completed)) (callbacks_of fn))
           \<and> ((\<forall>ev\<in>set evs. is_removal ev) \<longrightarrow>
                (\<forall>e. let w2 = store_answers (HandleSave (length (promises w))) (Inl e) w' in
                   isNew (self w2) \<and> doc_id (self w2) = doc_id (self w)
                   \<and> (\<forall>fn'. store_calls (save fn' w2) =
                         store_calls w2 @ [InsertDoc (doc_id (self w)) (doc_rev (self w))]))
                \<and> (\<forall>rid rrev.
                     \<not> isNew (self (store_answers (HandleSave (length (promises w)))
                                      (Inr (rid, rrev)) w'))))))"
  proof (intro impI allI)
    fix evs :: "('a, 'b) activity list"
    assume wf: "well_formed w" and quiet: "\<forall>ev\<in>set evs. \<not> answers_write (length (promises w)) ev"
    note a = save_then_activity[OF assms wf quiet, where fn = fn]
    show "let w' = foldl (\<lambda>w ev. occurs ev w) (save fn w) evs in
             (\<forall>e. notified (store_answers (HandleSave (length (promises w))) (Inl e) w') =
                     notified w' @ map (\<lambda>f. (f, Failed e)) (callbacks_of fn))
           \<and> (\<forall>rid rrev. let w3 = store_answers (HandleSave (length (promises w))) (Inr (rid, rrev)) w' in
                 doc_id (self w3) = rid \<and> doc_rev (self w3) = Some rrev
                 \<and> notified w3 = notified w' @ map (\<lambda>f. (f, Completed)) (callbacks_of fn))
           \<and> ((\<forall>ev\<in>set evs. is_removal ev) \<longrightarrow>
                (\<forall>e. let w2 = store_answers (HandleSave (length (promises w))) (Inl e) w' in
                   isNew (self w2) \<and> doc_id (self w2) = doc_id (self w)
                   \<and> (\<forall>fn'. store_calls (save fn' w2) =
                         store_calls w2 @ [InsertDoc (doc_id (self w)) (doc_rev (self w))]))
                \<and> (\<forall>rid rrev.
                     \<not> isNew (self (store_answers (HandleSave (length (promises w)))
                                      (Inr (rid, rrev)) w'))))"
      unfolding Let_def using a(1-4) a(5) by blast
  qed
  show ?thesis unfolding Let_def using direct later[unfolded Let_def] by blast
qed

theorem save_new_document_witness:
  "isNew (self fresh_doc) \<and> well_formed fresh_doc
   \<and> store_calls (save (Some 1) fresh_doc) = [InsertDoc ''d1'' None]
   \<and> \<not> isNew (self (save (Some 1) fresh_doc)) \<and> inserting (self (save (Some 1) fresh_doc))
   \<and> isNew (self (store_answers (HandleSave 0) (Inl ''conflict'') (save (Some 1) fresh_doc)))
   \<and> notified (store_answers (HandleSave 0) (Inl ''conflict'') (save (Some 1) fresh_doc)) =
       [(1, Failed ''conflict'')]
   \<and> notified (store_answers (HandleSave 0) (Inr (''d1'', ''1-a'')) (save (Some 1) fresh_doc)) =
       [(1, Completed)]
   \<and> isNew (self (store_answers (HandleSave 0) (Inl ''conflict'')
         (foldl (\<lambda>w ev. occurs ev w) (save (Some 1) fresh_doc)
            [CallRemove (Some 2), StoreAnswers (RemoveDone 1) (Inl ''gone'')])))"
proof -
  let ?evs = "[CallRemove (Some 2), StoreAnswers (RemoveDone 1) (Inl ''gone'')]
                :: (nat, string) activity list"
  have new: "isNew (self fresh_doc)"
    by (simp add: fresh_doc_def new_document_def)
  have wf: "well_formed fresh_doc"
    by (simp add: well_formed_def fresh_doc_def new_document_def)
  have start: "length (promises fresh_doc) = 0" "store_calls fresh_doc = []"
    "notified fresh_doc = []" "doc_id (self fresh_doc) = ''d1''" "doc_rev (self fresh_doc) = None"
    by (simp_all add: fresh_doc_def new_document_def)
  have quiet: "\<forall>ev\<in>set ?evs. \<not> answers_write 0 ev" by simp
  have rem: "\<forall>ev\<in>set ?evs. is_removal ev" by simp
  note t = save_new_document[OF new, of "Some 1", unfolded Let_def start]
  from t wf quiet rem
  have "isNew (self (store_answers (HandleSave 0) (Inl ''conflict'')
          (foldl (\<lambda>w ev. occurs ev w) (save (Some 1) fresh_doc) ?evs)))"
    by blast
  moreover from t
  have "store_calls (save (Some 1) fresh_doc) = [] @ [InsertDoc ''d1'' None]"
    and "\<not> isNew (self (save (Some 1) fresh_doc))" and "inserting (self (save (Some 1) fresh_doc))"
    and "isNew (self (store_answers (HandleSave 0) (Inl ''conflict'') (save (Some 1) fresh_doc)))"
    and "notified (store_answers (HandleSave 0) (Inl ''conflict'') (save (Some 1) fresh_doc)) =
           [] @ map (\<lambda>f. (f, Failed ''conflict'')) (callbacks_of (Some 1))"
    and "notified (store_answers (HandleSave 0) (Inr (''d1'', ''1-a'')) (save (Some 1) fresh_doc)) =
           [] @ map (\<lambda>f. (f, Completed)) (callbacks_of (Some 1))"
    by blast+
  ultimately show ?thesis using new wf by (simp add: callbacks_of_def)
qed

text \<open>
  Counterexample to claim C4 as stated: a new document is saved, and saved again before
  the store answers; the first write then fails, and \<open>isNew\<close> is not restored, although
  the error reaches the first caller's completion.
\<close>

theorem second_save_blocks_retry:
  "isNew (self fresh_doc)
   \<and> \<not> isNew (self (store_answers (HandleSave 0) (Inl ''conflict'')
           (save (Some 2) (save (Some 1) fresh_doc))))
   \<and> notified (store_answers (HandleSave 0) (Inl ''conflict'')
         (save (Some 2) (save (Some 1) fresh_doc))) = [(1, Failed ''conflict'')]"
  by (simp add: fresh_doc_def new_document_def doc_defs Let_def)

text \<open>
  Claim C8, as amended. Saving a document that is not new hands the same insert-style
  write to the store and leaves \<open>isNew\<close> false; it sets \<open>inserting\<close> to false (it does not
  keep the flag), so that a failure of this write does not turn \<open>isNew\<close> back to true.
\<close>

theorem save_existing_document:
  assumes "\<not> isNew (self w)"
  shows "let p = length (promises w); w1 = save fn w in
     store_calls w1 = store_calls w @ [InsertDoc (doc_id (self w)) (doc_rev (self w))]
   \<and> in_flight w1 = in_flight w @ [HandleSave p]
   \<and> \<not> isNew (self w1) \<and> \<not> inserting (self w1)
   \<and> (\<forall>e. \<not> isNew (self (store_answers (HandleSave p) (Inl e) w1)))"
  using assms by (simp add: doc_defs Let_def nth_append)

theorem save_existing_document_witness:
  "\<not> isNew (self saved_once)
   \<and> store_calls (save None saved_once) = [InsertDoc ''d1'' None, InsertDoc ''d1'' (Some ''1-a'')]
   \<and> \<not> isNew (self (save None saved_once)) \<and> \<not> inserting (self (save None saved_once))"
proof -
  have old: "\<not> isNew (self saved_once)"
    by (simp add: saved_once_def fresh_doc_def new_document_def doc_defs Let_def)
  from save_existing_document[OF old, of None] show ?thesis
    by (simp add: saved_once_def fresh_doc_def new_document_def doc_defs Let_def)
qed

text \<open>
  Counterexample to claim C8 as stated: a document whose first save was confirmed has
  \<open>isNew = False\<close> and \<open>inserting = True\<close>; saving it again changes \<open>inserting\<close>.
\<close>

theorem save_existing_clears_inserting:
  "\<not> isNew (self saved_once) \<and> inserting (self saved_once)
   \<and> inserting (self (save None saved_once)) \<noteq> inserting (self saved_once)"
  by (simp add: saved_once_def fresh_doc_def new_document_def doc_defs Let_def)

text \<open>
  Overlapping saves. When a new document is saved a second time before its first insert
  has been answered, the second save (the document is no longer new) sets \<open>inserting\<close>
  to false; if the first insert then fails, \<open>isNew\<close> stays false, and the error still
  reaches the completion of the first save.
\<close>

theorem overlapping_save_loses_retry:
  "let w1 = save fn1 (new_document ident :: ('cb, 'e) doc_world);
       w2 = save fn2 w1;
       w3 = store_answers (HandleSave 0) (Inl e) w2
   in store_calls w2 = [InsertDoc ident None, InsertDoc ident None]
      \<and> \<not> inserting (self w2)
      \<and> \<not> isNew (self w3)
      \<and> notified w3 = map (\<lambda>f. (f, Failed e)) (callbacks_of fn1)"
  by (simp add: new_document_def doc_defs Let_def nth_append)

lemma remove_in_flight:
  assumes "removal_in_flight p w"
  shows "removal_in_flight p (remove fn w)"
    and "store_calls (remove fn w) = store_calls w"
    and "in_flight (remove fn w) = in_flight w"
    and "notified (remove fn w) = notified w"
    and "listeners (promises (remove fn w) ! p) = listeners (promises w ! p) @ callbacks_of fn"
  using assms by (simp_all add: removal_in_flight_def remove_def addBack_def)

lemma removes_in_flight:
  "removal_in_flight p w \<Longrightarrow>
   removal_in_flight p (foldl (\<lambda>w f. remove f w) w fns)
   \<and> store_calls (foldl (\<lambda>w f. remove f w) w fns) = store_calls w
   \<and> in_flight (foldl (\<lambda>w f. remove f w) w fns) = in_flight w
   \<and> notified (foldl (\<lambda>w f. remove f w) w fns) = notified w
   \<and> listeners (promises (foldl (\<lambda>w f. remove f w) w fns) ! p) =
       listeners (promises w ! p) @ concat (map callbacks_of fns)"
proof (induction fns arbitrary: w)
  case Nil
  then show ?case by simp
next
  case (Cons f fns)
  from Cons.IH[OF remove_in_flight(1)[OF Cons.prems, of f]] remove_in_flight(2-5)[OF Cons.prems, of f]
  show ?case by simp
qed

lemma first_remove:
  assumes "removing (self w) = None"
  shows "removal_in_flight (length (promises w)) (remove fn w)"
    and "store_calls (remove fn w) = store_calls w @ [RemoveDoc (doc_id (self w)) (doc_rev (self w))]"
    and "in_flight (remove fn w) = in_flight w @ [RemoveDone (length (promises w))]"
    and "notified (remove fn w) = notified w"
    and "listeners (promises (remove fn w) ! length (promises w)) = callbacks_of fn"
  using assms
  by (simp_all add: removal_in_flight_def remove_def new_Promise_def collection_remove_def Let_def)

lemma removal_resolves:
  assumes "removal_in_flight p w"
  shows "notified (store_answers (RemoveDone p) reply w) =
         notified w @ map (\<lambda>f. (f, outcome_of reply)) (listeners (promises w ! p))"
  using assms
  by (cases reply)
     (simp_all add: removal_in_flight_def store_answers_def remove_callback_def
        resolve_promise_def emit_doc_def outcome_of_def)

text \<open>
  Claim C6. Once a removal has been issued, any number of further \<open>remove\<close> calls made
  while it is in flight issue no delete: the store has received exactly one delete, one
  callback is pending, and when the store answers, the completions of all the calls are
  notified, in the order they were attached, with the same outcome.
\<close>

theorem remove_coalesced:
  assumes "removing (self w) = None"
  shows "let p = length (promises w); w' = foldl (\<lambda>w f. remove f w) (remove fn w) fns in
      store_calls w' = store_calls w @ [RemoveDoc (doc_id (self w)) (doc_rev (self w))]
    \<and> in_flight w' = in_flight w @ [RemoveDone p]
    \<and> (\<forall>reply. notified (store_answers (RemoveDone p) reply w') =
          notified w @ map (\<lambda>f. (f, outcome_of reply)) (concat (map callbacks_of (fn # fns))))"
proof -
  let ?p = "length (promises w)"
  let ?w1 = "remove fn w"
  let ?w' = "foldl (\<lambda>w f. remove f w) ?w1 fns"
  note f = first_remove[OF assms, of fn]
  note r = removes_in_flight[OF f(1), of fns]
  have "store_calls ?w' = store_calls w @ [RemoveDoc (doc_id (self w)) (doc_rev (self w))]"
    using r f(2) by simp
  moreover have "in_flight ?w' = in_flight w @ [RemoveDone ?p]"
    using r f(3) by simp
  moreover have "notified (store_answers (RemoveDone ?p) reply ?w') =
          notified w @ map (\<lambda>f. (f, outcome_of reply)) (concat (map callbacks_of (fn # fns)))"
    for reply
    using removal_resolves[of ?p ?w' reply] r f(4,5) by simp
  ultimately show ?thesis by (simp add: Let_def)
qed

theorem remove_coalesced_witness:
  "removing (self fresh_doc) = None
   \<and> store_calls (foldl (\<lambda>w f. remove f w) (remove (Some 1) fresh_doc) [Some 2, Some 3]) =
       [RemoveDoc ''d1'' None]
   \<and> notified (store_answers (RemoveDone 0) (Inl ''gone'')
         (foldl (\<lambda>w f. remove f w) (remove (Some 1) fresh_doc) [Some 2, Some 3])) =
       [(1, Failed ''gone''), (2, Failed ''gone''), (3, Failed ''gone'')]"
proof -
  have idle: "removing (self fresh_doc) = None"
    by (simp add: fresh_doc_def new_document_def)
  from remove_coalesced[OF idle, of "Some 1" "[Some 2, Some 3]"] show ?thesis
    by (simp add: Let_def fresh_doc_def new_document_def callbacks_of_def outcome_of_def)
qed







section \<open>Properties of index synthesis\<close>

lemmas example_defs =
  world_of_def model_of_def user_with_list_def root_with_update_def user_with_custom_views_def
  user_with_default_view_def root_with_default_view_def root_with_two_defaults_def
  names_view_def plain_options_def user_mapping_def root_mapping_def Collection_def

lemmas ensure_defs =
  ensureIndexes_run_def ensureIndexes_def findById_callback_def implied_indexes_def
  explicit_view_ref_def early_out_def indexes_def ensure_done_def doQueue_def
  listDiscriminatorHandler_def rewrite_list_def maybeUpdateIndex_def set_view_def
  prune_views_def empty_design_def truthy_string_def truthy_bool_def js_string_def
  js_replace_def sq_def nl_def is_space_def toUpperCase_def

lemma default_from_views_second:
  assumes "\<And>k. ref k \<noteq> []"
    and "(truthy_string dv \<and> 1 \<le> length (filter (\<lambda>(k, spec). asDefaultIndex spec) vs))
         \<or> 2 \<le> length (filter (\<lambda>(k, spec). asDefaultIndex spec) vs)"
  shows "default_from_views ref mname vs dv = Inl (MoreThanOneDefault mname)"
  using assms(2)
proof (induction vs arbitrary: dv)
  case Nil
  then show ?case by simp
next
  case (Cons v vs)
  obtain k spec where v: "v = (k, spec)" by (cases v)
  show ?case
  proof (cases "asDefaultIndex spec")
    case True
    show ?thesis
    proof (cases "truthy_string dv")
      case True
      with \<open>asDefaultIndex spec\<close> v show ?thesis by simp
    next
      case False
      with Cons.prems \<open>asDefaultIndex spec\<close> v
      have "1 \<le> length (filter (\<lambda>(k, spec). asDefaultIndex spec) vs)" by simp
      moreover have "truthy_string (Some (ref k))"
        using assms(1) by (simp add: truthy_string_def)
      ultimately have "default_from_views ref mname vs (Some (ref k)) = Inl (MoreThanOneDefault mname)"
        using Cons.IH by blast
      with False \<open>asDefaultIndex spec\<close> v show ?thesis by simp
    qed
  next
    case False
    with Cons.prems v have "(truthy_string dv \<and> 1 \<le> length (filter (\<lambda>(k, spec). asDefaultIndex spec) vs))
         \<or> 2 \<le> length (filter (\<lambda>(k, spec). asDefaultIndex spec) vs)" by simp
    then have "default_from_views ref mname vs dv = Inl (MoreThanOneDefault mname)"
      by (rule Cons.IH)
    with False v show ?thesis by simp
  qed
qed

lemma explicit_view_ref_nonempty: "explicit_view_ref toCollectionName s k \<noteq> []"
  by (simp add: explicit_view_ref_def split: option.splits)

text \<open>
  Claim C5. When more than one view of the schema's \<^verbatim>\<open>views\<close> option is flagged as the
  default index, \<^verbatim>\<open>ensureIndexes\<close> throws the configuration error "More than one
  custom index defined as default" from its first loop and leaves everything as it was:
  the model (with the collection's \<open>ensuringIndexes\<close> counter and the default view), the
  stored design documents, and the record of design-document reads and writes are
  unchanged, so the error comes before any read or write and before the counter is
  incremented.
\<close>

theorem more_than_one_default:
  assumes "opt_views (options (schema (the_model w))) = Some vs"
    and "2 \<le> length (filter (\<lambda>(k, spec). asDefaultIndex spec) vs)"
  shows "ensureIndexes toCollectionName (the_model w) =
           (Inl (MoreThanOneDefault (modelName (the_model w))), the_model w)
       \<and> ensureIndexes_run toCollectionName w =
           (Some (MoreThanOneDefault (modelName (the_model w))), w)"
proof -
  have "default_from_views (explicit_view_ref toCollectionName (schema (the_model w)))
          (modelName (the_model w)) vs None = Inl (MoreThanOneDefault (modelName (the_model w)))"
    by (rule default_from_views_second) (use assms(2) explicit_view_ref_nonempty in auto)
  then have "ensureIndexes toCollectionName (the_model w) =
           (Inl (MoreThanOneDefault (modelName (the_model w))), the_model w)"
    using assms(1) by (simp add: ensureIndexes_def Let_def)
  then show ?thesis by (simp add: ensureIndexes_run_def)
qed

theorem more_than_one_default_witness:
  "\<forall>toCollectionName.
     ensureIndexes_run toCollectionName (world_of (model_of ''NamedEntity'' root_with_two_defaults)) =
       (Some (MoreThanOneDefault ''NamedEntity''),
        world_of (model_of ''NamedEntity'' root_with_two_defaults))"
proof
  fix toCollectionName
  let ?w = "world_of (model_of ''NamedEntity'' root_with_two_defaults)"
  have v: "opt_views (options (schema (the_model ?w))) =
             Some [(''names'', names_view), (''displayNames'', names_view)]"
    by (simp add: world_of_def model_of_def root_with_two_defaults_def)
  have two: "2 \<le> length (filter (\<lambda>(k, spec). asDefaultIndex spec)
                [(''names'', names_view), (''displayNames'', names_view)])"
    by (simp add: names_view_def)
  have n: "modelName (the_model ?w) = ''NamedEntity''"
    by (simp add: world_of_def model_of_def)
  from more_than_one_default[OF v two, of toCollectionName] n
  show "ensureIndexes_run toCollectionName ?w = (Some (MoreThanOneDefault ''NamedEntity''), ?w)"
    by simp
qed


text \<open>
  Claim C1 fails on the code. Two successive runs with the schema left alone, against a
  store that is empty at first and returns what was written: in both examples the
  second run writes the design document again. For the variant \<^verbatim>\<open>User\<close> with one custom
  list function, the first run stores the rewritten list function back into the
  schema's options, and the second run rewrites the rewritten text again, which no
  longer equals the stored one. For a root schema with an update function and no index
  or view, the \<^verbatim>\<open>views\<close> property of the design document is always set when its
  deletion is decided, so the document counts as modified in every run, and the second
  run writes the very document the first run wrote.
\<close>

theorem second_run_writes_again:
  "\<forall>toCollectionName.
     (let w1 = snd (ensureIndexes_run toCollectionName (world_of (model_of ''User'' user_with_list)));
          w2 = snd (ensureIndexes_run toCollectionName w1)
      in length (design_writes w1) = 1 \<and> length (design_writes w2) = 2
         \<and> opt_lists (options (schema (the_model w1))) \<noteq> opt_lists (options user_with_list))
     \<and> (let w1 = snd (ensureIndexes_run toCollectionName
                     (world_of (model_of ''NamedEntity'' root_with_update)));
          w2 = snd (ensureIndexes_run toCollectionName w1)
      in length (design_writes w1) = 1 \<and> design_writes w2 = design_writes w1 @ design_writes w1
         \<and> schema (the_model w1) = root_with_update)"
  by (simp add: example_defs ensure_defs Let_def)

text \<open>
  Claim C2 fails on the code. For the variant \<^verbatim>\<open>User\<close> with two custom views, the map
  written for the arrow function \<^verbatim>\<open>doc => emit(doc.name, doc)\<close> is the source unchanged,
  without the guard: the guard is spliced in after the first brace of the source, and
  this source has none. In the second map the first brace is inside a comment, and the
  guard is written into the comment. The synthesized view \<^verbatim>\<open>by_id\<close> of the same run
  starts with the guard.
\<close>

theorem custom_maps_not_guarded:
  "\<forall>toCollectionName.
     (let w1 = snd (ensureIndexes_run toCollectionName
                     (world_of (model_of ''User'' user_with_custom_views)))
      in map (\<lambda>d. written_map d ''names'') (design_writes w1) = [Some ''doc => emit(doc.name, doc)'']
         \<and> map (\<lambda>d. written_map d ''owners'') (design_writes w1) =
             [Some (''function (doc /* {'' @ early_out user_mapping
                    @ ''owner} */) { emit(doc.owner, doc); }'')]
         \<and> map (\<lambda>d. written_map d ''by_id'') (design_writes w1) =
             [Some (''function(doc){'' @ early_out user_mapping @ ''emit(doc._id,doc);}'')])"
  by (simp add: example_defs ensure_defs written_map_def Let_def)

text \<open>
  Claim C7 fails on the code. For the variant \<^verbatim>\<open>User\<close> with an index on \<^verbatim>\<open>name\<close> and
  the custom view \<^verbatim>\<open>names\<close> flagged as the default index, the default view is the
  synthesized \<^verbatim>\<open>byName\<close> view, not \<^verbatim>\<open>names\<close>. For a root schema on which a
  discriminator has been registered, the default view is prefixed with the collection
  name of the null variant value, not with \<^verbatim>\<open>$root\<close>. For a variant with the flagged
  view and no indexed field, \<^verbatim>\<open>ensureIndexes\<close> throws a TypeError.
\<close>

theorem explicit_default_overridden:
  "\<forall>toCollectionName.
     fst (ensureIndexes toCollectionName (model_of ''User'' user_with_default_view)) =
       Inr (Some \<lparr> designDoc = toCollectionName (Some ''User''),
                   discriminatorEarlyOut = early_out user_mapping,
                   closure_indexes = [[''name'']] \<rparr>)
     \<and> defaultView (snd (ensureIndexes toCollectionName (model_of ''User'' user_with_default_view))) =
         Some (toCollectionName (Some ''User'') @ ''/byName'')
     \<and> defaultView (snd (ensureIndexes toCollectionName
           (model_of ''NamedEntity'' (root_with_default_view\<lparr>discriminatorMapping := Some root_mapping\<rparr>)))) =
         Some (toCollectionName None @ ''/names'')
     \<and> fst (ensureIndexes toCollectionName
           (model_of ''User'' (user_with_default_view\<lparr>tree := [(''_id'', None), (''name'', None)]\<rparr>))) =
         Inl TypeError"
  by (simp add: example_defs ensure_defs Let_def)

section \<open>Properties of Model.discriminator\<close>

lemma map_of_merge_object:
  "map_of (merge_object a b) k = (case map_of a k of None \<Rightarrow> map_of b k | Some v \<Rightarrow> Some v)"
proof (cases "map_of a k")
  case None
  then have "k \<notin> set (map fst a)" by (simp add: map_of_eq_None_iff)
  then have "map_of (filter (\<lambda>(k, v). k \<notin> set (map fst a)) b) k = map_of b k"
    by (induction b) (auto simp: image_iff)
  with None show ?thesis by (simp add: merge_object_def map_add_def)
next
  case (Some v)
  then show ?thesis by (simp add: merge_object_def map_add_def)
qed

lemma kept_value_differs:
  "keep_existing (case b of None \<Rightarrow> a | Some v \<Rightarrow> Some v) b = b \<Longrightarrow> \<not> (b = None \<and> a \<noteq> None)"
  by (cases a; cases b; simp add: keep_existing_def)

lemma rejected_option_fails_validation:
  assumes "sets_rejected_option c r"
  shows "\<not> validateOptions (ignore_derived_options c r) r"
proof
  assume ok: "validateOptions (ignore_derived_options c r) r"
  let ?o = "merge_object (other_options c) (other_options r)"
  from ok have key: "discriminatorKey c = discriminatorKey r"
    and coll: "keep_existing (case collection_name r of None \<Rightarrow> collection_name c | Some v \<Rightarrow> Some v)
                 (collection_name r) = collection_name r"
    and auto: "keep_existing (case autoIndex r of None \<Rightarrow> autoIndex c | Some v \<Rightarrow> Some v)
                 (autoIndex r) = autoIndex r"
    and cache: "keep_existing (case disableCache r of None \<Rightarrow> disableCache c | Some v \<Rightarrow> Some v)
                 (disableCache r) = disableCache r"
    and other: "same_object ?o (other_options r)"
    by (simp_all add: validateOptions_def deepEqual_def Let_def merge_options_def
        ignore_derived_options_def)
  note kept_value_differs[OF coll] kept_value_differs[OF auto] kept_value_differs[OF cache]
  moreover have "\<not> list_ex (\<lambda>k. map_of (other_options c) k \<noteq> map_of (other_options r) k)
          (map fst (other_options c))"
  proof
    assume "list_ex (\<lambda>k. map_of (other_options c) k \<noteq> map_of (other_options r) k)
          (map fst (other_options c))"
    then obtain k where k: "k \<in> set (map fst (other_options c))"
      and ne: "map_of (other_options c) k \<noteq> map_of (other_options r) k"
      by (auto simp: list_ex_iff)
    from k obtain v where v: "map_of (other_options c) k = Some v"
      by (cases "map_of (other_options c) k") (auto simp: map_of_eq_None_iff)
    have "k \<in> set (map fst ?o)"
      using k by (auto simp: merge_object_def)
    with other have "map_of ?o k = map_of (other_options r) k"
      by (auto simp: same_object_def list_all_iff)
    then show False using ne v by (simp add: map_of_merge_object)
  qed
  ultimately show False using assms key unfolding sets_rejected_option_def by blast
qed

text \<open>
  Claim C9, as amended. \<^verbatim>\<open>Model.discriminator\<close> with a Schema argument throws a
  configuration error when the model's schema is a non-root discriminator, when the
  discriminator key is a declared path of the derived schema, or when the derived schema
  sets an option that validation rejects: a discriminator key other than the root's, one
  of \<^verbatim>\<open>collection\<close>, \<^verbatim>\<open>autoIndex\<close>, \<^verbatim>\<open>disableCache\<close> while the root does not set it,
  or any other option outside the customizable subset with a value that is not the
  root's. In each case the model is left as it was: no derived model is registered and
  the root's discriminator mapping is not set.
\<close>

theorem discriminator_rejects:
  assumes "non_root (schema m)
           \<or> path_declared child (discriminatorKey (options (schema m)))
           \<or> sets_rejected_option (options child) (options (schema m))"
  shows "fst (discriminator name (Some child) m) \<in>
           {Some (NotRootModel name),
            Some (FieldNameClash name (discriminatorKey (options (schema m)))),
            Some NotCustomizable}
       \<and> snd (snd (discriminator name (Some child) m)) = m"
proof (cases "non_root (schema m)")
  case True
  then show ?thesis by (simp add: discriminator_def non_root_def)
next
  case root: False
  show ?thesis
  proof (cases "path_declared child (discriminatorKey (options (schema m)))")
    case True
    with root show ?thesis by (simp add: discriminator_def non_root_def Let_def)
  next
    case False
    with root assms have "sets_rejected_option (options child) (options (schema m))" by simp
    then have "\<not> validateOptions (ignore_derived_options (options child) (options (schema m)))
                  (options (schema m))"
      by (rule rejected_option_fails_validation)
    with root False show ?thesis
      by (simp add: discriminator_def non_root_def Let_def mergeSchemas_def)
  qed
qed

lemmas discriminator_defs =
  discriminator_def mergeSchemas_def validateOptions_def deepEqual_def same_object_def
  merge_options_def merge_object_def ignore_derived_options_def keep_existing_def
  path_declared_def truthy_bool_def

theorem discriminator_rejects_witness:
  "sets_rejected_option (options user_lax) (options (schema (model_of ''NamedEntity'' entity_schema)))
   \<and> fst (discriminator ''User'' (Some user_lax) (model_of ''NamedEntity'' entity_schema)) =
       Some NotCustomizable
   \<and> snd (snd (discriminator ''User'' (Some user_lax) (model_of ''NamedEntity'' entity_schema))) =
       model_of ''NamedEntity'' entity_schema"
proof -
  let ?m = "model_of ''NamedEntity'' entity_schema"
  have rej: "sets_rejected_option (options user_lax) (options (schema ?m))"
    by (simp add: sets_rejected_option_def user_lax_def entity_schema_def model_of_def
        plain_options_def)
  have err: "fst (discriminator ''User'' (Some user_lax) ?m) = Some NotCustomizable"
    by (simp add: discriminator_defs user_lax_def entity_schema_def example_defs Let_def)
  from discriminator_rejects[of ?m user_lax "''User''"] rej err show ?thesis by simp
qed

text \<open>
  Counterexample to claim C9 as stated: a derived schema that differs from the root only
  in \<^verbatim>\<open>autoIndex\<close>, an option outside the customizable subset, is accepted and
  registered; the root's value replaces the derived schema's before validation.
\<close>

theorem discriminator_accepts_other_autoIndex:
  "differs_outside_customizable (options user_no_autoindex) (options entity_schema)
   \<and> fst (discriminator ''User'' (Some user_no_autoindex) (model_of ''NamedEntity'' entity_schema)) = None
   \<and> map_option (map fst)
       (discriminators (snd (snd (discriminator ''User'' (Some user_no_autoindex)
          (model_of ''NamedEntity'' entity_schema))))) = Some [''User'']"
  by (simp add: differs_outside_customizable_def discriminator_defs user_no_autoindex_def
      entity_schema_def example_defs Let_def)

end
